theory Spec2Isabelle
  imports Main "HOL-Library.Sublist"
begin

section \<open>Strings and the library functions the client calls\<close>

text \<open>
  Go strings are byte sequences; they are modelled as \<open>string\<close> (a list of \<open>char\<close>,
  one per byte). \<open>strings.HasPrefix a p\<close> is \<open>prefix p a\<close>.
\<close>

text \<open>
  \<open>strings.ToLower\<close> has two paths. A string whose bytes are all ASCII (below 128) is
  folded byte by byte: the letters \<open>A\<close> to \<open>Z\<close> (65 to 90) move to \<open>a\<close> to \<open>z\<close>, every
  other byte is kept. Any other string is handed to \<open>strings.Map(unicode.ToLower, s)\<close>,
  which decodes UTF-8 and folds every rune by the Unicode case tables (so the Kelvin
  sign U+212A becomes \<open>k\<close>). Those tables belong to the Go library, not to the
  repository: the function of the second path is the parameter \<open>unicodeToLower\<close>.
\<close>

definition isASCII :: "char \<Rightarrow> bool" where
  "isASCII c = ((of_char c :: nat) < 128)"

definition toLowerByte :: "char \<Rightarrow> char" where
  "toLowerByte c =
     (if 65 \<le> (of_char c :: nat) \<and> (of_char c :: nat) \<le> 90
      then char_of ((of_char c :: nat) + 32) else c)"

definition ToLower :: "(string \<Rightarrow> string) \<Rightarrow> string \<Rightarrow> string" where
  "ToLower unicodeToLower s =
     (if list_all isASCII s then map toLowerByte s else unicodeToLower s)"

text \<open>
  \<open>filepath.Ext\<close>: scan from the last byte towards the first, stop at a path separator
  (\<open>/\<close>, as on Unix), and return the suffix that starts at the first dot met; empty when no dot
  is met. \<open>extScan\<close> takes the bytes still to scan, last byte first, and the suffix
  already scanned.
\<close>

fun extScan :: "string \<Rightarrow> string \<Rightarrow> string" where
  "extScan [] acc = []"
| "extScan (c # rs) acc =
     (if c = CHR ''/'' then []
      else if c = CHR ''.'' then c # acc
      else extScan rs (c # acc))"

definition Ext :: "string \<Rightarrow> string" where
  "Ext p = extScan (rev p) []"

text \<open>
  \<open>path.Base\<close>: \<open>.\<close> for the empty path; otherwise trailing slashes are stripped,
  the part after the last remaining slash is kept, and a path of slashes only gives \<open>/\<close>.
\<close>

definition Base :: "string \<Rightarrow> string" where
  "Base p =
     (if p = [] then ''.''
      else let p1 = rev (dropWhile (\<lambda>c. c = CHR ''/'') (rev p));
               p2 = rev (takeWhile (\<lambda>c. c \<noteq> CHR ''/'') (rev p1))
           in if p2 = [] then ''/'' else p2)"

text \<open>
  \<open>strings.NewReplacer(old, new).Replace\<close> for one pair with a non-empty \<open>old\<close>:
  every non-overlapping occurrence of \<open>old\<close>, found from the left, is replaced.
  (The client builds the replacer for the marker \<open>:suite:\<close> only; an empty \<open>old\<close>
  is not used and leaves the string unchanged here.)
\<close>

function Replace :: "string \<Rightarrow> string \<Rightarrow> string \<Rightarrow> string" where
  "Replace old new [] = []"
| "Replace old new (c # cs) =
     (if old \<noteq> [] \<and> prefix old (c # cs)
      then new @ Replace old new (drop (length old) (c # cs))
      else c # Replace old new cs)"
  by pat_completeness auto
termination
  by (relation "measure (\<lambda>(old, new, s). length s)") auto

text \<open>The decimal digits that \<open>%d\<close> prints for a non-negative counter.\<close>

fun itoa :: "nat \<Rightarrow> string" where
  "itoa n =
     (if n < 10 then [char_of (48 + n)]
      else itoa (n div 10) @ [char_of (48 + n mod 10)])"

section \<open>Failures\<close>

text \<open>
  \<open>Error\<close> is a Go error value returned to the caller; \<open>Fatal\<close> is \<open>log.Fatal\<close>
  (also through \<open>failOnErr\<close>), which ends the process; \<open>Panic\<close> is a run-time panic;
  \<open>StillPolling\<close> says that a polling loop has used up the iterations the model was
  given and has not left the loop.
\<close>

datatype failure = Error string | Fatal string | Panic | StillPolling

definition failOnErr :: "string + 'a \<Rightarrow> failure + 'a" where
  "failOnErr r = (case r of Inl e \<Rightarrow> Inl (Fatal e) | Inr x \<Rightarrow> Inr x)"

section \<open>The static tables\<close>

definition guessAppType :: "(string \<Rightarrow> string) \<Rightarrow> string \<Rightarrow> failure + string" where
  "guessAppType unicodeToLower fileName =
     (let lowerCaseFileName = ToLower unicodeToLower fileName;
          extension = Ext lowerCaseFileName
      in if extension = ''.apk'' then Inr ''ANDROID_APP''
         else if extension = ''.ipa'' then Inr ''IOS_APP''
         else Inl (Error ''Can't guess App Type''))"

definition lookupTestTypes :: "string \<Rightarrow> failure + string \<times> string" where
  "lookupTestTypes testType =
     (if testType = ''APPIUM_JAVA_JUNIT''
        then Inr (''APPIUM_JAVA_JUNIT_TEST_PACKAGE'', ''APPIUM_JAVA_JUNIT_TEST_SPEC'')
      else if testType = ''INSTRUMENTATION''
        then Inr (''INSTRUMENTATION_TEST_PACKAGE'', ''INSTRUMENTATION_TEST_SPEC'')
      else if testType = ''UIAUTOMATION''
        then Inr (''UIAUTOMATION_TEST_PACKAGE'', '''')
      else if testType = ''APPIUM_JAVA_TESTNG''
        then Inr (''APPIUM_JAVA_TESTNG_TEST_PACKAGE'', ''APPIUM_JAVA_TESTNG_TEST_SPEC'')
      else if testType = ''CALABASH''
        then Inr (''CALABASH_TEST_PACKAGE'', '''')
      else if testType = ''UIAUTOMATER''
        then Inr (''UIAUTOMATER_TEST_PACKAGE'', '''')
      else if testType = ''XCTEST''
        then Inr (''XCTEST_TEST_PACKAGE'', ''XCTEST_UI_TEST_SPEC'')
      else if testType = ''APPIUM_NODE''
        then Inr (''APPIUM_NODE_TEST_PACKAGE'', ''APPIUM_NODE_TEST_SPEC'')
      else if testType = ''APPIUM_PYTHON''
        then Inr (''APPIUM_PYTHON_TEST_PACKAGE'', ''APPIUM_PYTHON_TEST_SPEC'')
      else if testType = ''APPIUM_RUBY''
        then Inr (''APPIUM_RUBY_TEST_PACKAGE'', ''APPIUM_RUBY_TEST_SPEC'')
      else if testType = ''APPIUM_WEB_JAVA_JUNIT''
        then Inr (''APPIUM_WEB_JAVA_JUNIT_TEST_PACKAGE'', ''APPIUM_WEB_JAVA_JUNIT_TEST_SPEC'')
      else if testType = ''APPIUM_WEB_JAVA_TESTNG''
        then Inr (''APPIUM_WEB_JAVA_TESTNG_TEST_PACKAGE'', ''APPIUM_WEB_JAVA_TESTNG_TEST_SPEC'')
      else if testType = ''APPIUM_WEB_PYTHON''
        then Inr (''APPIUM_WEB_PYTHON_TEST_PACKAGE'', ''APPIUM_WEB_PYTHON_TEST_SPEC'')
      else if testType = ''APPIUM_WEB_NODE''
        then Inr (''APPIUM_WEB_NODE_TEST_PACKAGE'', ''APPIUM_WEB_NODE_TEST_SPEC'')
      else if testType = ''APPIUM_WEB_RUBY''
        then Inr (''APPIUM_WEB_RUBY_TEST_PACKAGE'', ''APPIUM_WEB_RUBY_TEST_SPEC'')
      else if testType = ''BUILTIN_EXPLORER'' \<or> testType = ''BUILTIN_FUZZ''
        then Inr (''NONE'', '''')
      else Inl (Error
        ''Could not guess test type, you can use the BUILTIN_FUZZ or BUILTIN_EXPLORER''))"

section \<open>The remote service's data, as far as the client reads it\<close>

text \<open>
  The SDK's structures are records of the fields the client reads or writes. The SDK
  hands every field over as a pointer; the client dereferences them without a check,
  and they are taken as set. The one optional field the client leaves unset, the
  test-spec identifier of a schedule request, is a \<open>string option\<close>.
\<close>

record Device =
  devName :: string
  devOs :: string
  devArn :: string

record Rule =
  Attribute :: string
  Operator :: string
  Value :: string

record CreateDevicePoolInput =
  poolName :: string
  poolDescription :: string
  poolProjectArn :: string
  Rules :: "Rule list"

record CreateUploadInput =
  upName :: string
  upProjectArn :: string
  upType :: string
  upContentType :: string

record Upload =
  uploadArn :: string
  uploadUrl :: string
  uploadStatus :: string

record ScheduleRunTest =
  Type :: string
  TestPackageArn :: string
  TestSpecArn :: "string option"

record ScheduleRunInput =
  AppArn :: string
  DevicePoolArn :: string
  runReqName :: string
  runReqProjectArn :: string
  Test :: ScheduleRunTest

record Run =
  runArn :: string
  runName :: string
  runStatus :: string

record Job =
  jobArn :: string
  jobName :: string
  jobDeviceModel :: string
  jobDeviceOs :: string

record Suite =
  suiteArn :: string
  suiteName :: string

record Artifact =
  artArn :: string
  artName :: string
  artExtension :: string
  artUrl :: string

section \<open>Effects: the log of calls and the world that answers them\<close>

text \<open>
  Every call that leaves the process (a request to the service, a local file read, an
  HTTP transfer) is appended to a log. The world answers a call from the log of the
  calls made before it, so a service whose answers change over time (a status that
  moves from PROCESSING to SUCCEEDED) is one such world. Sleeping and printing are
  left out.
\<close>

datatype event =
    Call_ListDevices
  | Call_CreateDevicePool CreateDevicePoolInput
  | Call_OpenFile string
  | Call_CreateUpload CreateUploadInput
  | Call_HttpPut string string
  | Call_GetUpload string
  | Call_ScheduleRun ScheduleRunInput
  | Call_GetRun string
  | Call_ListArtifacts string string
  | Call_ListJobs string
  | Call_ListSuites string
  | Call_Download string string

text \<open>
  \<open>OpenFile\<close> stands for \<open>os.Open\<close>, \<open>Stat\<close> and \<open>Read\<close>: an error of \<open>os.Open\<close>,
  or \<open>None\<close> when \<open>Stat\<close> gives no file information (the client ignores that error
  and then calls \<open>Size\<close> on nil), or the bytes of the buffer. \<open>NewRequest\<close> tells whether
  \<open>http.NewRequest\<close> accepts the URL. \<open>Download\<close> stands for \<open>os.MkdirAll\<close>,
  \<open>os.Create\<close>, the HTTP GET and \<open>io.Copy\<close> of \<open>downloadArtifact\<close>: \<open>True\<close> when all
  of them succeed. \<open>UnicodeToLower\<close> is no call: it is the Go library's
  \<open>strings.Map(unicode.ToLower, s)\<close>, the parameter of \<open>ToLower\<close>.
\<close>

record world =
  ListDevices :: "event list \<Rightarrow> string + Device list"
  CreateDevicePool :: "event list \<Rightarrow> CreateDevicePoolInput \<Rightarrow> string + string"
  OpenFile :: "event list \<Rightarrow> string \<Rightarrow> string + string option"
  CreateUpload :: "event list \<Rightarrow> CreateUploadInput \<Rightarrow> string + Upload"
  NewRequest :: "string \<Rightarrow> string + unit"
  HttpPut :: "event list \<Rightarrow> string \<Rightarrow> string \<Rightarrow> string + unit"
  GetUpload :: "event list \<Rightarrow> string \<Rightarrow> string + Upload"
  ScheduleRun :: "event list \<Rightarrow> ScheduleRunInput \<Rightarrow> string + Run"
  GetRun :: "event list \<Rightarrow> string \<Rightarrow> string + Run"
  ListArtifacts :: "event list \<Rightarrow> string \<Rightarrow> string \<Rightarrow> string + Artifact list"
  ListJobs :: "event list \<Rightarrow> string \<Rightarrow> string + Job list"
  ListSuites :: "event list \<Rightarrow> string \<Rightarrow> string + Suite list"
  Download :: "event list \<Rightarrow> string \<Rightarrow> string \<Rightarrow> bool"
  UnicodeToLower :: "string \<Rightarrow> string"

type_synonym 'a action = "event list \<Rightarrow> (failure + 'a) \<times> event list"

text \<open>Sequencing: a failure ends the function, the log made so far is kept.\<close>

definition andThen :: "'a action \<Rightarrow> ('a \<Rightarrow> 'b action) \<Rightarrow> 'b action" where
  "andThen m f log = (case m log of (Inl e, log') \<Rightarrow> (Inl e, log') | (Inr x, log') \<Rightarrow> f x log')"

definition ret :: "'a \<Rightarrow> 'a action" where
  "ret x log = (Inr x, log)"

definition fail :: "failure \<Rightarrow> 'a action" where
  "fail e log = (Inl e, log)"

section \<open>The Device-Pool Resolver\<close>

definition deviceKey :: "Device \<Rightarrow> string" where
  "deviceKey m = devName m @ '' - '' @ devOs m"

text \<open>
  \<open>lookupDeviceArn\<close> fills a Go map from the device list, in the order of the list, so
  a later device with the same key overwrites an earlier one; a key that is absent
  reads as the empty string.
\<close>

definition deviceMap :: "Device list \<Rightarrow> (string \<rightharpoonup> string)" where
  "deviceMap ds = foldl (\<lambda>devices m. devices(deviceKey m \<mapsto> devArn m)) Map.empty ds"

definition lookupDeviceArn :: "world \<Rightarrow> string \<Rightarrow> string action" where
  "lookupDeviceArn w deviceName log =
     (let log' = log @ [Call_ListDevices] in
      case failOnErr (ListDevices w log) of
        Inl e \<Rightarrow> (Inl e, log')
      | Inr ds \<Rightarrow>
          let Arn = (case deviceMap ds deviceName of None \<Rightarrow> [] | Some a \<Rightarrow> a)
          in if Arn \<noteq> [] then (Inr Arn, log')
             else (Inl (Error (''failed to find a device with name '' @ deviceName)), log'))"

text \<open>The rule value is the device identifier between \<open>["\<close> and \<open>"]\<close>; byte 0x22 is the double quote.\<close>

definition poolRequest :: "string \<Rightarrow> string \<Rightarrow> string \<Rightarrow> CreateDevicePoolInput" where
  "poolRequest poolNm deviceArn projectArn =
     \<lparr> poolName = poolNm,
       poolDescription = ''autocreated pool '' @ poolNm,
       poolProjectArn = projectArn,
       Rules = [\<lparr> Attribute = ''Arn'', Operator = ''IN'',
                  Value = ''['' @ [CHR 0x22] @ deviceArn @ [CHR 0x22] @ '']'' \<rparr>] \<rparr>"

text \<open>
  \<open>createPoolFromDevice\<close> passes the error of the lookup to \<open>failOnErr\<close>, so a device
  that is not found ends the process; only the error of the create call is returned.
\<close>

definition createPoolFromDevice :: "world \<Rightarrow> string \<Rightarrow> string \<Rightarrow> string \<Rightarrow> string action" where
  "createPoolFromDevice w poolNm deviceName projectArn log =
     (case lookupDeviceArn w deviceName log of
        (Inl (Error e), log') \<Rightarrow> (Inl (Fatal e), log')
      | (Inl f, log') \<Rightarrow> (Inl f, log')
      | (Inr deviceArn, log') \<Rightarrow>
          let req = poolRequest poolNm deviceArn projectArn;
              log'' = log' @ [Call_CreateDevicePool req]
          in (case CreateDevicePool w log' req of
                Inl e \<Rightarrow> (Inl (Error e), log'')
              | Inr poolArn \<Rightarrow> (Inr poolArn, log'')))"

section \<open>The Artifact Uploader\<close>

text \<open>
  The loop at the end of \<open>uploadPut\<close>: the status starts empty, so the body runs at
  least once; each turn asks for the upload and leaves the loop on an error or on the
  status SUCCEEDED. The first argument bounds the turns the model follows.
\<close>

fun waitUpload :: "nat \<Rightarrow> world \<Rightarrow> string \<Rightarrow> unit action" where
  "waitUpload 0 w arn log = (Inl StillPolling, log)"
| "waitUpload (Suc n) w arn log =
     (let log' = log @ [Call_GetUpload arn] in
      case GetUpload w log arn of
        Inl e \<Rightarrow> (Inl (Error e), log')
      | Inr u \<Rightarrow>
          if uploadStatus u = ''SUCCEEDED'' then (Inr (), log')
          else waitUpload n w arn log')"

definition uploadRequest :: "string \<Rightarrow> string \<Rightarrow> string \<Rightarrow> string \<Rightarrow> CreateUploadInput" where
  "uploadRequest uploadFilePath uploadType projectArn uploadName =
     \<lparr> upName = (if uploadName = [] then Base uploadFilePath else uploadName),
       upProjectArn = projectArn,
       upType = uploadType,
       upContentType = ''application/octet-stream'' \<rparr>"

definition uploadPut :: "nat \<Rightarrow> world \<Rightarrow> string \<Rightarrow> string \<Rightarrow> string \<Rightarrow> string \<Rightarrow> Upload action" where
  "uploadPut fuel w uploadFilePath uploadType projectArn uploadName log =
     (let log1 = log @ [Call_OpenFile uploadFilePath] in
      case OpenFile w log uploadFilePath of
        Inl e \<Rightarrow> (Inl (Error e), log1)
      | Inr None \<Rightarrow> (Inl Panic, log1)
      | Inr (Some buffer) \<Rightarrow>
          let uploadReq = uploadRequest uploadFilePath uploadType projectArn uploadName;
              log2 = log1 @ [Call_CreateUpload uploadReq]
          in (case CreateUpload w log1 uploadReq of
                Inl e \<Rightarrow> (Inl (Fatal e), log2)
              | Inr uploadInfo \<Rightarrow>
                  let upload_url = uploadUrl uploadInfo in
                  (case NewRequest w upload_url of
                     Inl e \<Rightarrow> (Inl (Fatal e), log2)
                   | Inr _ \<Rightarrow>
                       if CHR ''?'' \<notin> set upload_url then (Inl Panic, log2)
                       else
                         let log3 = log2 @ [Call_HttpPut upload_url buffer] in
                         (case HttpPut w log2 upload_url buffer of
                            Inl e \<Rightarrow> (Inl (Fatal e), log3)
                          | Inr _ \<Rightarrow>
                              (case waitUpload fuel w (uploadArn uploadInfo) log3 of
                                 (Inl e, log4) \<Rightarrow> (Inl e, log4)
                               | (Inr _, log4) \<Rightarrow> (Inr uploadInfo, log4))))))"

section \<open>The Report Builder\<close>

text \<open>A \<open>for ... range\<close> loop whose body may end the function.\<close>

fun forEach :: "('a \<Rightarrow> unit action) \<Rightarrow> 'a list \<Rightarrow> unit action" where
  "forEach body [] log = (Inr (), log)"
| "forEach body (x # xs) log =
     (case body x log of
        (Inl e, log') \<Rightarrow> (Inl e, log')
      | (Inr _, log') \<Rightarrow> forEach body xs log')"

definition downloadArtifact :: "world \<Rightarrow> string \<Rightarrow> Artifact \<Rightarrow> unit action" where
  "downloadArtifact w fileName artifact log =
     (let log' = log @ [Call_Download fileName (artUrl artifact)] in
      if Download w log fileName (artUrl artifact) then (Inr (), log') else (Inl Panic, log'))"

definition artifactFileName :: "string \<Rightarrow> nat \<Rightarrow> Artifact \<Rightarrow> string" where
  "artifactFileName dirPrefix count artifact =
     dirPrefix @ ''/'' @ itoa count @ ''_'' @ artName artifact @ ''.'' @ artExtension artifact"

text \<open>
  The innermost loop of \<open>downloadArtifactsForSuite\<close>, over the artifacts of one listing,
  with its counter. (The counter is a Go \<open>int\<close>; it counts artifacts of one listing and
  is modelled as a natural number.)
\<close>

fun scanArtifacts :: "world \<Rightarrow> string \<Rightarrow> string \<Rightarrow> nat \<Rightarrow> Artifact list \<Rightarrow> unit action" where
  "scanArtifacts w dirPrefix artifactPrefix count [] log = (Inr (), log)"
| "scanArtifacts w dirPrefix artifactPrefix count (artifact # rest) log =
     (if prefix artifactPrefix (artArn artifact) then
        (case downloadArtifact w (artifactFileName dirPrefix count artifact) artifact log of
           (Inl e, log') \<Rightarrow> (Inl e, log')
         | (Inr _, log') \<Rightarrow> scanArtifacts w dirPrefix artifactPrefix (Suc count) rest log')
      else scanArtifacts w dirPrefix artifactPrefix count rest log)"

definition artifactTypes :: "string list" where
  "artifactTypes = [''LOG'', ''SCREENSHOT'', ''FILE'']"

text \<open>
  The listings are kept in a Go map from the category to a list of listings; a category
  that is absent reads as the empty list.
\<close>

type_synonym artifactMap = "string \<Rightarrow> Artifact list list"

definition artifactPrefixOf :: "string \<Rightarrow> string" where
  "artifactPrefixOf suiteArnV = Replace '':suite:'' '':artifact:'' suiteArnV"

definition downloadArtifactsForSuite :: "world \<Rightarrow> string \<Rightarrow> artifactMap \<Rightarrow> Suite \<Rightarrow> unit action" where
  "downloadArtifactsForSuite w dirPrefix allArtifacts suite =
     (let artifactPrefix = artifactPrefixOf (suiteArn suite) in
      forEach (\<lambda>artifactType.
          forEach (\<lambda>artifactList. scanArtifacts w dirPrefix artifactPrefix 0 artifactList)
            (allArtifacts artifactType))
        artifactTypes)"

fun fetchArtifacts :: "world \<Rightarrow> string \<Rightarrow> string list \<Rightarrow> artifactMap \<Rightarrow> artifactMap action" where
  "fetchArtifacts w runArnV [] artifacts log = (Inr artifacts, log)"
| "fetchArtifacts w runArnV (artifactType # rest) artifacts log =
     (let log' = log @ [Call_ListArtifacts runArnV artifactType] in
      case failOnErr (ListArtifacts w log runArnV artifactType) of
        Inl e \<Rightarrow> (Inl e, log')
      | Inr artifactResp \<Rightarrow>
          fetchArtifacts w runArnV rest
            (artifacts(artifactType := artifacts artifactType @ [artifactResp])) log')"

definition jobFriendlyName :: "Job \<Rightarrow> string" where
  "jobFriendlyName job = jobName job @ '' - '' @ jobDeviceModel job @ '' - '' @ jobDeviceOs job"

definition dirPrefixOf :: "Job \<Rightarrow> Suite \<Rightarrow> string" where
  "dirPrefixOf job suite = ''report/'' @ jobFriendlyName job @ ''/'' @ suiteName suite"

definition reportJob :: "world \<Rightarrow> artifactMap \<Rightarrow> Job \<Rightarrow> unit action" where
  "reportJob w artifacts job log =
     (let log' = log @ [Call_ListSuites (jobArn job)] in
      case failOnErr (ListSuites w log (jobArn job)) of
        Inl e \<Rightarrow> (Inl e, log')
      | Inr suites \<Rightarrow>
          forEach (\<lambda>suite. downloadArtifactsForSuite w (dirPrefixOf job suite) artifacts suite)
            suites log')"

definition runReport :: "world \<Rightarrow> string \<Rightarrow> unit action" where
  "runReport w runArnV log =
     (let log1 = log @ [Call_GetRun runArnV] in
      case failOnErr (GetRun w log runArnV) of
        Inl e \<Rightarrow> (Inl e, log1)
      | Inr resp \<Rightarrow>
          (case fetchArtifacts w runArnV artifactTypes (\<lambda>_. []) log1 of
             (Inl e, log2) \<Rightarrow> (Inl e, log2)
           | (Inr artifacts, log2) \<Rightarrow>
               let log3 = log2 @ [Call_ListJobs runArnV] in
               (case failOnErr (ListJobs w log2 runArnV) of
                  Inl e \<Rightarrow> (Inl e, log3)
                | Inr jobs \<Rightarrow> forEach (reportJob w artifacts) jobs log3)))"

section \<open>The Run Scheduler\<close>

text \<open>
  The loop of \<open>scheduleRun\<close> that waits for the run: as in \<open>waitUpload\<close>, the body runs
  at least once and the loop is left on an error or on the status COMPLETED. The bound
  on the turns that \<open>scheduleRun\<close> is given holds for each wait of \<open>scheduleRun\<close> alike.
\<close>

fun waitRun :: "nat \<Rightarrow> world \<Rightarrow> string \<Rightarrow> unit action" where
  "waitRun 0 w arn log = (Inl StillPolling, log)"
| "waitRun (Suc n) w arn log =
     (let log' = log @ [Call_GetRun arn] in
      case GetRun w log arn of
        Inl e \<Rightarrow> (Inl (Error e), log')
      | Inr resp \<Rightarrow>
          if runStatus resp = ''COMPLETED'' then (Inr (), log')
          else waitRun n w arn log')"

record config =
  cfg_projectArn :: string
  cfg_runName :: string
  cfg_deviceArn :: string
  cfg_devicePoolArn :: string
  cfg_appArn :: string
  cfg_appFile :: string
  cfg_appType :: string
  cfg_testPackageArn :: string
  cfg_testPackageFile :: string
  cfg_testType :: string
  cfg_testSpecArn :: string
  cfg_testSpecFile :: string

definition runTestOf :: "string \<Rightarrow> string \<Rightarrow> string \<Rightarrow> ScheduleRunTest" where
  "runTestOf testTypeV testPackageArnV testSpecArnV =
     (let runTest = \<lparr> Type = testTypeV, TestPackageArn = testPackageArnV, TestSpecArn = None \<rparr>
      in if testSpecArnV \<noteq> [] then runTest\<lparr> TestSpecArn := Some testSpecArnV \<rparr> else runTest)"

definition runReqOf :: "config \<Rightarrow> string \<Rightarrow> string \<Rightarrow> ScheduleRunTest \<Rightarrow> ScheduleRunInput" where
  "runReqOf c appArnV devicePoolArnV runTest =
     \<lparr> AppArn = appArnV, DevicePoolArn = devicePoolArnV, runReqName = cfg_runName c,
       runReqProjectArn = cfg_projectArn c, Test = runTest \<rparr>"

definition submitRun :: "world \<Rightarrow> ScheduleRunInput \<Rightarrow> Run action" where
  "submitRun w runReq log =
     (case ScheduleRun w log runReq of
        Inl e \<Rightarrow> (Inl (Error e), log @ [Call_ScheduleRun runReq])
      | Inr resp \<Rightarrow> (Inr resp, log @ [Call_ScheduleRun runReq]))"

definition pureResult :: "failure + 'a \<Rightarrow> 'a action" where
  "pureResult r log = (r, log)"

text \<open>The four preparation steps of \<open>scheduleRun\<close>, in the order of the source.\<close>

definition appStep :: "nat \<Rightarrow> world \<Rightarrow> config \<Rightarrow> string action" where
  "appStep fuel w c =
     (if cfg_appFile c \<noteq> [] then
        andThen (if cfg_appType c = [] then pureResult (guessAppType (UnicodeToLower w) (cfg_appFile c))
                 else ret (cfg_appType c))
          (\<lambda>appTypeV.
             andThen (uploadPut fuel w (cfg_appFile c) appTypeV (cfg_projectArn c) [])
               (\<lambda>uploadApp. ret (uploadArn uploadApp)))
      else ret (cfg_appArn c))"

definition poolStep :: "world \<Rightarrow> config \<Rightarrow> string action" where
  "poolStep w c =
     (if cfg_devicePoolArn c = [] then
        (if cfg_deviceArn c \<noteq> [] then
           createPoolFromDevice w (cfg_deviceArn c) (cfg_deviceArn c) (cfg_projectArn c)
         else fail (Error ''we need a device/devicepool to run on''))
      else ret (cfg_devicePoolArn c))"

definition testPackageStep :: "nat \<Rightarrow> world \<Rightarrow> config \<Rightarrow> string \<Rightarrow> string action" where
  "testPackageStep fuel w c testPackageType =
     (if cfg_testPackageFile c \<noteq> [] then
        andThen (uploadPut fuel w (cfg_testPackageFile c) testPackageType (cfg_projectArn c) [])
          (\<lambda>uploadTestPackage. ret (uploadArn uploadTestPackage))
      else ret (cfg_testPackageArn c))"

definition testSpecStep :: "nat \<Rightarrow> world \<Rightarrow> config \<Rightarrow> string \<Rightarrow> string action" where
  "testSpecStep fuel w c testSpecType =
     (if cfg_testSpecFile c \<noteq> [] then
        andThen (uploadPut fuel w (cfg_testSpecFile c) testSpecType (cfg_projectArn c) [])
          (\<lambda>uploadTestSpec. ret (uploadArn uploadTestSpec))
      else ret (cfg_testSpecArn c))"

definition scheduleRun :: "nat \<Rightarrow> world \<Rightarrow> config \<Rightarrow> unit action" where
  "scheduleRun fuel w c =
     andThen (appStep fuel w c) (\<lambda>appArnV.
     andThen (poolStep w c) (\<lambda>devicePoolArnV.
     andThen (pureResult (lookupTestTypes (cfg_testType c))) (\<lambda>(testPackageType, testSpecType).
     andThen (testPackageStep fuel w c testPackageType) (\<lambda>testPackageArnV.
     andThen (testSpecStep fuel w c testSpecType) (\<lambda>testSpecArnV.
     andThen (submitRun w
                (runReqOf c appArnV devicePoolArnV
                   (runTestOf (cfg_testType c) testPackageArnV testSpecArnV))) (\<lambda>resp.
     andThen (waitRun fuel w (runArn resp)) (\<lambda>_.
     runReport w (runArn resp))))))))"

section \<open>Specification-side definitions\<close>

text \<open>
  The Test-Type Mapper as the specification describes it: a static table from the
  test-type name to the pair of the test-package kind and the test-spec kind.
\<close>

definition testTypeTable :: "(string \<times> string \<times> string) list" where
  "testTypeTable =
     [(''APPIUM_JAVA_JUNIT'', ''APPIUM_JAVA_JUNIT_TEST_PACKAGE'', ''APPIUM_JAVA_JUNIT_TEST_SPEC''),
      (''INSTRUMENTATION'', ''INSTRUMENTATION_TEST_PACKAGE'', ''INSTRUMENTATION_TEST_SPEC''),
      (''UIAUTOMATION'', ''UIAUTOMATION_TEST_PACKAGE'', ''''),
      (''APPIUM_JAVA_TESTNG'', ''APPIUM_JAVA_TESTNG_TEST_PACKAGE'', ''APPIUM_JAVA_TESTNG_TEST_SPEC''),
      (''CALABASH'', ''CALABASH_TEST_PACKAGE'', ''''),
      (''UIAUTOMATER'', ''UIAUTOMATER_TEST_PACKAGE'', ''''),
      (''XCTEST'', ''XCTEST_TEST_PACKAGE'', ''XCTEST_UI_TEST_SPEC''),
      (''APPIUM_NODE'', ''APPIUM_NODE_TEST_PACKAGE'', ''APPIUM_NODE_TEST_SPEC''),
      (''APPIUM_PYTHON'', ''APPIUM_PYTHON_TEST_PACKAGE'', ''APPIUM_PYTHON_TEST_SPEC''),
      (''APPIUM_RUBY'', ''APPIUM_RUBY_TEST_PACKAGE'', ''APPIUM_RUBY_TEST_SPEC''),
      (''APPIUM_WEB_JAVA_JUNIT'', ''APPIUM_WEB_JAVA_JUNIT_TEST_PACKAGE'',
         ''APPIUM_WEB_JAVA_JUNIT_TEST_SPEC''),
      (''APPIUM_WEB_JAVA_TESTNG'', ''APPIUM_WEB_JAVA_TESTNG_TEST_PACKAGE'',
         ''APPIUM_WEB_JAVA_TESTNG_TEST_SPEC''),
      (''APPIUM_WEB_PYTHON'', ''APPIUM_WEB_PYTHON_TEST_PACKAGE'', ''APPIUM_WEB_PYTHON_TEST_SPEC''),
      (''APPIUM_WEB_NODE'', ''APPIUM_WEB_NODE_TEST_PACKAGE'', ''APPIUM_WEB_NODE_TEST_SPEC''),
      (''APPIUM_WEB_RUBY'', ''APPIUM_WEB_RUBY_TEST_PACKAGE'', ''APPIUM_WEB_RUBY_TEST_SPEC''),
      (''BUILTIN_EXPLORER'', ''NONE'', ''''),
      (''BUILTIN_FUZZ'', ''NONE'', '''')]"

definition unknownTestType :: string where
  "unknownTestType =
     ''Could not guess test type, you can use the BUILTIN_FUZZ or BUILTIN_EXPLORER''"

text \<open>
  The answer of the service to the \<open>i\<close>-th status check of a polling loop that starts
  at \<open>log\<close>: the loop has made \<open>i\<close> checks before it, and nothing else.
\<close>

definition uploadAnswers :: "world \<Rightarrow> event list \<Rightarrow> string \<Rightarrow> nat \<Rightarrow> string \<Rightarrow> bool" where
  "uploadAnswers w log arn i s =
     (case GetUpload w (log @ replicate i (Call_GetUpload arn)) arn of
        Inl e \<Rightarrow> False
      | Inr u \<Rightarrow> uploadStatus u = s)"

definition runAnswers :: "world \<Rightarrow> event list \<Rightarrow> string \<Rightarrow> nat \<Rightarrow> string \<Rightarrow> bool" where
  "runAnswers w log arn i s =
     (case GetRun w (log @ replicate i (Call_GetRun arn)) arn of
        Inl e \<Rightarrow> False
      | Inr resp \<Rightarrow> runStatus resp = s)"

text \<open>The events that an action adds to the log.\<close>

definition emitted :: "event list \<Rightarrow> event list \<Rightarrow> event list" where
  "emitted log log' = drop (length log) log'"

text \<open>
  An action keeps the log it is given and adds events that all satisfy \<open>Q\<close>; when it
  returns a value, the value satisfies \<open>R\<close>.
\<close>

definition establishes :: "(event \<Rightarrow> bool) \<Rightarrow> ('a \<Rightarrow> bool) \<Rightarrow> 'a action \<Rightarrow> bool" where
  "establishes Q R act =
     (\<forall>log r log'. act log = (r, log') \<longrightarrow>
        (\<exists>es. log' = log @ es \<and> (\<forall>e \<in> set es. Q e)) \<and> (\<forall>x. r = Inr x \<longrightarrow> R x))"

text \<open>
  What \<open>uploadPut\<close> adds to the log, and where the upload it returns comes from: the
  answer to its one create request.
\<close>

definition uploadEvent :: "CreateUploadInput \<Rightarrow> event \<Rightarrow> bool" where
  "uploadEvent req e =
     (case e of
        Call_OpenFile p \<Rightarrow> True
      | Call_CreateUpload req' \<Rightarrow> req' = req
      | Call_HttpPut u b \<Rightarrow> True
      | Call_GetUpload a \<Rightarrow> True
      | _ \<Rightarrow> False)"

section \<open>Example worlds\<close>

text \<open>
  An instance of \<open>strings.Map(unicode.ToLower, s)\<close> for the examples. It folds the
  ASCII letters, the Kelvin sign U+212A (bytes E2 84 AA) to \<open>k\<close> and the dotted capital
  I U+0130 (bytes C4 B0) to \<open>i\<close>, as Go does, and keeps every other byte: it is Go's
  function on the strings of the examples.
\<close>

function foldSample :: "string \<Rightarrow> string" where
  "foldSample [] = []"
| "foldSample (c # cs) =
     (if c = CHR 0xE2 \<and> prefix [CHR 0x84, CHR 0xAA] cs then CHR ''k'' # foldSample (drop 2 cs)
      else if c = CHR 0xC4 \<and> prefix [CHR 0xB0] cs then CHR ''i'' # foldSample (drop 1 cs)
      else toLowerByte c # foldSample cs)"
  by pat_completeness auto
termination
  by (relation "measure length") auto

text \<open>A world in which every call fails; the examples below change single answers.\<close>

definition deadWorld :: world where
  "deadWorld =
     \<lparr> ListDevices = (\<lambda>log. Inl ''unreachable''),
       CreateDevicePool = (\<lambda>log req. Inl ''unreachable''),
       OpenFile = (\<lambda>log p. Inl ''no such file''),
       CreateUpload = (\<lambda>log req. Inl ''unreachable''),
       NewRequest = (\<lambda>url. Inr ()),
       HttpPut = (\<lambda>log url body. Inl ''unreachable''),
       GetUpload = (\<lambda>log arn. Inl ''unreachable''),
       ScheduleRun = (\<lambda>log req. Inl ''unreachable''),
       GetRun = (\<lambda>log arn. Inl ''unreachable''),
       ListArtifacts = (\<lambda>log arn ty. Inl ''unreachable''),
       ListJobs = (\<lambda>log arn. Inl ''unreachable''),
       ListSuites = (\<lambda>log arn. Inl ''unreachable''),
       Download = (\<lambda>log f url. False),
       UnicodeToLower = foldSample \<rparr>"

text \<open>
  A service whose uploads and runs report a first status until two checks have been
  made and a second status from the third check on.
\<close>

definition statusAfter :: "nat \<Rightarrow> string \<Rightarrow> string \<Rightarrow> nat \<Rightarrow> string" where
  "statusAfter k early late i = (if i < k then early else late)"

definition pollWorld :: "string \<Rightarrow> string \<Rightarrow> world" where
  "pollWorld early late =
     deadWorld
       \<lparr> GetUpload := (\<lambda>log arn. Inr \<lparr> uploadArn = arn, uploadUrl = [],
                          uploadStatus = statusAfter 2 early late (length log) \<rparr>),
         GetRun := (\<lambda>log arn. Inr \<lparr> runArn = arn, runName = ''run'',
                          runStatus = statusAfter 2 early late (length log) \<rparr>) \<rparr>"

text \<open>A world in which local files can be read and uploads succeed at the first check.\<close>

definition uploadWorld :: world where
  "uploadWorld =
     deadWorld
       \<lparr> OpenFile := (\<lambda>log p. Inr (Some ''bytes'')),
         CreateUpload := (\<lambda>log req. Inr \<lparr> uploadArn = ''arn:upload:'' @ upName req,
                            uploadUrl = ''https://bucket/key?signature'',
                            uploadStatus = ''INITIALIZED'' \<rparr>),
         HttpPut := (\<lambda>log url body. Inr ()),
         GetUpload := (\<lambda>log arn. Inr \<lparr> uploadArn = arn, uploadUrl = [],
                            uploadStatus = ''SUCCEEDED'' \<rparr>) \<rparr>"


text \<open>A listing with two devices of the same name and OS, and a service that creates pools.\<close>

definition twoPixels :: "Device list" where
  "twoPixels =
     [\<lparr> devName = ''Pixel 5'', devOs = ''11'', devArn = ''arn:device:A'' \<rparr>,
      \<lparr> devName = ''Pixel 5'', devOs = ''11'', devArn = ''arn:device:B'' \<rparr>,
      \<lparr> devName = ''Pixel 4'', devOs = ''10'', devArn = ''arn:device:C'' \<rparr>]"

definition poolWorld :: world where
  "poolWorld =
     deadWorld
       \<lparr> ListDevices := (\<lambda>log. Inr twoPixels),
         CreateDevicePool := (\<lambda>log req. Inr ''arn:pool:1'') \<rparr>"

text \<open>A world in which every download succeeds.\<close>

definition downloadWorld :: world where
  "downloadWorld = deadWorld \<lparr> Download := (\<lambda>log f url. True) \<rparr>"

definition logArtifact :: "string \<Rightarrow> Artifact" where
  "logArtifact arn = \<lparr> artArn = arn, artName = ''Logcat'', artExtension = ''txt'',
                        artUrl = ''https://files/'' @ arn \<rparr>"

definition onlyLogs :: "Artifact list \<Rightarrow> artifactMap" where
  "onlyLogs al = (\<lambda>t. if t = ''LOG'' then [al] else [])"


text \<open>
  The Report Builder as the specification describes it: for one suite and one listing,
  the artifacts whose identifier starts with the suite's artifact prefix, numbered from
  a start value in the order of the listing; for one suite, the listings of the three
  categories in turn, each numbered from 0.
\<close>

definition matching :: "string \<Rightarrow> Artifact list \<Rightarrow> Artifact list" where
  "matching artifactPrefix al = filter (\<lambda>a. prefix artifactPrefix (artArn a)) al"

definition plannedDownloads :: "string \<Rightarrow> string \<Rightarrow> nat \<Rightarrow> Artifact list \<Rightarrow> event list" where
  "plannedDownloads dirPrefix artifactPrefix n al =
     map (\<lambda>(i, a). Call_Download (artifactFileName dirPrefix i a) (artUrl a))
       (enumerate n (matching artifactPrefix al))"

definition suitePlan :: "string \<Rightarrow> artifactMap \<Rightarrow> Suite \<Rightarrow> event list" where
  "suitePlan dirPrefix allArtifacts suite =
     concat (map (\<lambda>t. concat (map (plannedDownloads dirPrefix (artifactPrefixOf (suiteArn suite)) 0)
                                 (allArtifacts t)))
               artifactTypes)"

text \<open>
  An action follows a plan when the events it adds are the plan, or, when it ends in a
  failure, a part of the plan from its start.
\<close>

definition follows :: "event list \<Rightarrow> unit action \<Rightarrow> bool" where
  "follows plan act =
     (\<forall>log r log'. act log = (r, log') \<longrightarrow>
        (\<exists>es. log' = log @ es \<and> prefix es plan \<and> (r = Inr () \<longrightarrow> es = plan)))"


text \<open>The destination path as the specification writes it.\<close>

definition reportPath :: "Job \<Rightarrow> Suite \<Rightarrow> nat \<Rightarrow> Artifact \<Rightarrow> string" where
  "reportPath job suite index artifact =
     ''report/'' @ jobName job @ '' - '' @ jobDeviceModel job @ '' - '' @ jobDeviceOs job
       @ ''/'' @ suiteName suite
       @ ''/'' @ itoa index @ ''_'' @ artName artifact @ ''.'' @ artExtension artifact"

text \<open>
  A download of the report of a run is well-formed when its path is \<open>reportPath\<close> of a
  job that the service listed for the run, a suite that it listed for the job, and the
  artifact at position \<open>index\<close> among the artifacts of one category's listing that match
  the suite.
\<close>

definition pathShape :: "world \<Rightarrow> string \<Rightarrow> string \<Rightarrow> string \<Rightarrow> bool" where
  "pathShape w arn f u =
     (\<exists>job suite t al index.
        (\<exists>l jobs. ListJobs w l arn = Inr jobs \<and> job \<in> set jobs)
        \<and> (\<exists>l suites. ListSuites w l (jobArn job) = Inr suites \<and> suite \<in> set suites)
        \<and> t \<in> set artifactTypes
        \<and> (\<exists>l. ListArtifacts w l arn t = Inr al)
        \<and> index < length (matching (artifactPrefixOf (suiteArn suite)) al)
        \<and> f = reportPath job suite index (matching (artifactPrefixOf (suiteArn suite)) al ! index)
        \<and> u = artUrl (matching (artifactPrefixOf (suiteArn suite)) al ! index))"

definition reportEvent :: "world \<Rightarrow> string \<Rightarrow> event \<Rightarrow> bool" where
  "reportEvent w arn e =
     (case e of
        Call_Download f u \<Rightarrow> pathShape w arn f u
      | Call_GetRun a \<Rightarrow> True
      | Call_ListArtifacts a t \<Rightarrow> True
      | Call_ListJobs a \<Rightarrow> True
      | Call_ListSuites a \<Rightarrow> True
      | _ \<Rightarrow> False)"

text \<open>The listings came from the service, for a category of the list.\<close>

definition listedArtifacts :: "world \<Rightarrow> string \<Rightarrow> artifactMap \<Rightarrow> bool" where
  "listedArtifacts w arn arts =
     (\<forall>t al. al \<in> set (arts t)
        \<longrightarrow> t \<in> set artifactTypes \<and> (\<exists>l. ListArtifacts w l arn t = Inr al))"


text \<open>
  The Report Builder against run data that do not change. \<open>listingOf\<close> is the listing
  of a category, \<open>planArtifacts\<close> files the listings by category as the fetch loop does,
  and \<open>reportPlan\<close> is the sequence of calls of a complete report.
\<close>

definition listingOf :: "world \<Rightarrow> string \<Rightarrow> string \<Rightarrow> Artifact list" where
  "listingOf w arn t = (case ListArtifacts w [] arn t of Inl e \<Rightarrow> [] | Inr al \<Rightarrow> al)"

fun planArtifacts :: "(string \<Rightarrow> Artifact list) \<Rightarrow> string list \<Rightarrow> artifactMap \<Rightarrow> artifactMap" where
  "planArtifacts listing [] arts = arts"
| "planArtifacts listing (t # ts) arts = planArtifacts listing ts (arts(t := arts t @ [listing t]))"

definition jobPlan :: "world \<Rightarrow> artifactMap \<Rightarrow> Job \<Rightarrow> event list" where
  "jobPlan w arts job =
     Call_ListSuites (jobArn job) #
       (case ListSuites w [] (jobArn job) of
          Inl e \<Rightarrow> []
        | Inr suites \<Rightarrow> concat (map (\<lambda>suite. suitePlan (dirPrefixOf job suite) arts suite) suites))"

definition reportPlan :: "world \<Rightarrow> string \<Rightarrow> event list" where
  "reportPlan w arn =
     Call_GetRun arn # map (Call_ListArtifacts arn) artifactTypes @ Call_ListJobs arn #
       (case ListJobs w [] arn of
          Inl e \<Rightarrow> []
        | Inr jobs \<Rightarrow>
            concat (map (jobPlan w (planArtifacts (listingOf w arn) artifactTypes (\<lambda>_. []))) jobs))"

text \<open>The destination paths among a list of events.\<close>

fun downloadPaths :: "event list \<Rightarrow> string list" where
  "downloadPaths [] = []"
| "downloadPaths (Call_Download f u # es) = f # downloadPaths es"
| "downloadPaths (e # es) = downloadPaths es"

text \<open>
  A service with one run on one device: a job with two suites, three logs, one
  screenshot and no files. Its answers do not depend on the calls made before.
\<close>

definition farmJobs :: "Job list" where
  "farmJobs = [\<lparr> jobArn = ''arn:1:job:r/0'', jobName = ''Pixel 5'',
                  jobDeviceModel = ''Google Pixel 5'', jobDeviceOs = ''11'' \<rparr>]"

definition farmSuites :: "Suite list" where
  "farmSuites = [\<lparr> suiteArn = ''arn:1:suite:r/0/0'', suiteName = ''Setup'' \<rparr>,
                 \<lparr> suiteArn = ''arn:1:suite:r/0/1'', suiteName = ''Tests'' \<rparr>]"

definition farmLogs :: "Artifact list" where
  "farmLogs = [logArtifact ''arn:1:artifact:r/0/0/0'', logArtifact ''arn:1:artifact:r/0/1/0'',
               logArtifact ''arn:1:artifact:r/0/1/1'']"

definition farmScreens :: "Artifact list" where
  "farmScreens = [\<lparr> artArn = ''arn:1:artifact:r/0/1/2'', artName = ''Home'',
                    artExtension = ''png'', artUrl = ''https://files/home'' \<rparr>]"

definition farmWorld :: world where
  "farmWorld =
     \<lparr> ListDevices = (\<lambda>log. Inr twoPixels),
       CreateDevicePool = (\<lambda>log req. Inr ''arn:pool:1''),
       OpenFile = (\<lambda>log p. Inr (Some ''bytes'')),
       CreateUpload = (\<lambda>log req. Inr \<lparr> uploadArn = ''arn:upload:'' @ upName req,
                          uploadUrl = ''https://bucket/key?signature'',
                          uploadStatus = ''INITIALIZED'' \<rparr>),
       NewRequest = (\<lambda>url. Inr ()),
       HttpPut = (\<lambda>log url body. Inr ()),
       GetUpload = (\<lambda>log arn. Inr \<lparr> uploadArn = arn, uploadUrl = [],
                          uploadStatus = ''SUCCEEDED'' \<rparr>),
       ScheduleRun = (\<lambda>log req. Inr \<lparr> runArn = ''arn:1:run:r'', runName = runReqName req,
                          runStatus = ''SCHEDULING'' \<rparr>),
       GetRun = (\<lambda>log arn. Inr \<lparr> runArn = arn, runName = ''nightly'',
                          runStatus = ''COMPLETED'' \<rparr>),
       ListArtifacts = (\<lambda>log arn t. Inr (if t = ''LOG'' then farmLogs
                                           else if t = ''SCREENSHOT'' then farmScreens else [])),
       ListJobs = (\<lambda>log arn. Inr farmJobs),
       ListSuites = (\<lambda>log arn. Inr farmSuites),
       Download = (\<lambda>log f url. True),
       UnicodeToLower = foldSample \<rparr>"

definition farmReport :: "event list" where
  "farmReport =
     [Call_GetRun ''arn:1:run:r'',
      Call_ListArtifacts ''arn:1:run:r'' ''LOG'',
      Call_ListArtifacts ''arn:1:run:r'' ''SCREENSHOT'',
      Call_ListArtifacts ''arn:1:run:r'' ''FILE'',
      Call_ListJobs ''arn:1:run:r'',
      Call_ListSuites ''arn:1:job:r/0'',
      Call_Download ''report/Pixel 5 - Google Pixel 5 - 11/Setup/0_Logcat.txt''
        ''https://files/arn:1:artifact:r/0/0/0'',
      Call_Download ''report/Pixel 5 - Google Pixel 5 - 11/Tests/0_Logcat.txt''
        ''https://files/arn:1:artifact:r/0/1/0'',
      Call_Download ''report/Pixel 5 - Google Pixel 5 - 11/Tests/1_Logcat.txt''
        ''https://files/arn:1:artifact:r/0/1/1'',
      Call_Download ''report/Pixel 5 - Google Pixel 5 - 11/Tests/0_Home.png''
        ''https://files/home'']"


text \<open>
  What is true of a schedule request that \<open>scheduleRun\<close> submits for a configuration.
  \<open>specAttached\<close>: the test-spec identifier that the configuration leads to, the one
  supplied when no test-spec file is given and otherwise the identifier of the upload
  created for the file, is attached when it is non-empty and left out when it is
  empty. \<open>poolUsed\<close>: the device pool is the one supplied, or, when none is supplied,
  one that \<open>createPoolFromDevice\<close> returned for the device supplied.
\<close>

definition schedOK :: "(ScheduleRunInput \<Rightarrow> bool) \<Rightarrow> event \<Rightarrow> bool" where
  "schedOK P e = (case e of Call_ScheduleRun req \<Rightarrow> P req | _ \<Rightarrow> True)"

definition specFrom :: "world \<Rightarrow> config \<Rightarrow> string \<Rightarrow> string \<Rightarrow> bool" where
  "specFrom w c testSpecType v =
     (if cfg_testSpecFile c = [] then v = cfg_testSpecArn c
      else (\<exists>l u. CreateUpload w l
                     (uploadRequest (cfg_testSpecFile c) testSpecType (cfg_projectArn c) []) = Inr u
                   \<and> v = uploadArn u))"

definition specAttached :: "world \<Rightarrow> config \<Rightarrow> ScheduleRunInput \<Rightarrow> bool" where
  "specAttached w c req =
     (\<exists>testPackageType testSpecType v.
        lookupTestTypes (cfg_testType c) = Inr (testPackageType, testSpecType)
        \<and> specFrom w c testSpecType v
        \<and> TestSpecArn (Test req) = (if v = [] then None else Some v))"

definition poolFrom :: "world \<Rightarrow> config \<Rightarrow> string \<Rightarrow> bool" where
  "poolFrom w c pool =
     (if cfg_devicePoolArn c = [] then
        cfg_deviceArn c \<noteq> []
        \<and> (\<exists>l l'. createPoolFromDevice w (cfg_deviceArn c) (cfg_deviceArn c) (cfg_projectArn c) l
                    = (Inr pool, l'))
      else pool = cfg_devicePoolArn c)"

definition poolUsed :: "world \<Rightarrow> config \<Rightarrow> ScheduleRunInput \<Rightarrow> bool" where
  "poolUsed w c req = poolFrom w c (DevicePoolArn req)"


text \<open>
  Configurations for the examples: \<open>nightly\<close> names a device, an app file and a
  test-package file and no test spec; \<open>nightlySpec\<close> adds a test-spec file;
  \<open>noTarget\<close> names neither a device pool nor a device, and an app file whose kind
  cannot be guessed.
\<close>

definition nightly :: config where
  "nightly =
     \<lparr> cfg_projectArn = ''arn:project:1'', cfg_runName = ''nightly'',
       cfg_deviceArn = ''Pixel 4 - 10'', cfg_devicePoolArn = [],
       cfg_appArn = [], cfg_appFile = ''app.apk'', cfg_appType = [],
       cfg_testPackageArn = [], cfg_testPackageFile = ''tests.zip'',
       cfg_testType = ''INSTRUMENTATION'',
       cfg_testSpecArn = [], cfg_testSpecFile = [] \<rparr>"

definition nightlySpec :: config where
  "nightlySpec = nightly \<lparr> cfg_testSpecFile := ''spec.yml'' \<rparr>"

definition noTarget :: config where
  "noTarget = nightly \<lparr> cfg_deviceArn := [], cfg_appFile := ''notes.txt'' \<rparr>"

definition uploadCalls :: "string \<Rightarrow> string \<Rightarrow> event list" where
  "uploadCalls name kind =
     [Call_OpenFile name,
      Call_CreateUpload \<lparr> upName = name, upProjectArn = ''arn:project:1'', upType = kind,
                          upContentType = ''application/octet-stream'' \<rparr>,
      Call_HttpPut ''https://bucket/key?signature'' ''bytes'',
      Call_GetUpload (''arn:upload:'' @ name)]"

definition nightlyRequest :: "string option \<Rightarrow> ScheduleRunInput" where
  "nightlyRequest spec =
     \<lparr> AppArn = ''arn:upload:app.apk'', DevicePoolArn = ''arn:pool:1'',
       runReqName = ''nightly'', runReqProjectArn = ''arn:project:1'',
       Test = \<lparr> Type = ''INSTRUMENTATION'', TestPackageArn = ''arn:upload:tests.zip'',
                TestSpecArn = spec \<rparr> \<rparr>"

definition nightlyLog :: "event list" where
  "nightlyLog =
     uploadCalls ''app.apk'' ''ANDROID_APP''
     @ [Call_ListDevices,
        Call_CreateDevicePool (poolRequest ''Pixel 4 - 10'' ''arn:device:C'' ''arn:project:1'')]
     @ uploadCalls ''tests.zip'' ''INSTRUMENTATION_TEST_PACKAGE''
     @ [Call_ScheduleRun (nightlyRequest None), Call_GetRun ''arn:1:run:r'']
     @ farmReport"

definition nightlySpecLog :: "event list" where
  "nightlySpecLog =
     uploadCalls ''app.apk'' ''ANDROID_APP''
     @ [Call_ListDevices,
        Call_CreateDevicePool (poolRequest ''Pixel 4 - 10'' ''arn:device:C'' ''arn:project:1'')]
     @ uploadCalls ''tests.zip'' ''INSTRUMENTATION_TEST_PACKAGE''
     @ uploadCalls ''spec.yml'' ''INSTRUMENTATION_TEST_SPEC''
     @ [Call_ScheduleRun (nightlyRequest (Some ''arn:upload:spec.yml'')),
        Call_GetRun ''arn:1:run:r'']
     @ farmReport"


section \<open>Properties\<close>

subsection \<open>Strings\<close>










lemma Base_component:
  assumes "base \<noteq> []" and "CHR ''/'' \<notin> set base"
  shows "Base (dir @ ''/'' @ base) = base" and "Base base = base"
proof -
  have nz: "rev base \<noteq> []" using assms by simp
  have hd: "hd (rev base) \<noteq> CHR ''/''" using assms nz by (metis hd_in_set set_rev)
  have dw: "dropWhile (\<lambda>c. c = CHR ''/'') (rev base @ xs) = rev base @ xs" for xs
    using nz hd by (cases "rev base") simp_all
  have tw: "takeWhile (\<lambda>c. c \<noteq> CHR ''/'') (rev base @ CHR ''/'' # xs) = rev base" for xs
    using assms by (auto simp add: takeWhile_tail)
  have tw': "takeWhile (\<lambda>c. c \<noteq> CHR ''/'') (rev base) = rev base"
    using assms by auto
  have dw': "dropWhile (\<lambda>c. c = CHR ''/'') (rev base) = rev base"
    using dw[of "[]"] by simp
  show "Base (dir @ ''/'' @ base) = base"
    using assms(1) by (simp add: Base_def dw tw)
  show "Base base = base"
    using assms(1) by (simp add: Base_def dw' tw')
qed

subsection \<open>Actions and their logs\<close>

lemma establishesI:
  assumes "\<And>log r log'. act log = (r, log') \<Longrightarrow> \<exists>es. log' = log @ es \<and> (\<forall>e \<in> set es. Q e)"
    and "\<And>log x log'. act log = (Inr x, log') \<Longrightarrow> R x"
  shows "establishes Q R act"
  using assms unfolding establishes_def by blast

lemma establishes_log:
  assumes "establishes Q R act" and "act log = (r, log')"
  shows "\<exists>es. log' = log @ es \<and> (\<forall>e \<in> set es. Q e)"
  using assms unfolding establishes_def by blast

lemma establishes_ret:
  assumes "establishes Q R act" and "act log = (Inr x, log')"
  shows "R x"
  using assms unfolding establishes_def by blast

lemma establishes_emitted:
  assumes "establishes Q R act" and "act log = (r, log')" and "e \<in> set (emitted log log')"
  shows "Q e"
  using establishes_log[OF assms(1,2)] assms(3) by (auto simp: emitted_def)

lemma establishes_weaken:
  assumes "establishes Q R act" and "\<And>e. Q e \<Longrightarrow> Q' e" and "\<And>x. R x \<Longrightarrow> R' x"
  shows "establishes Q' R' act"
  using assms unfolding establishes_def by blast

lemma establishes_ret_action: "R x \<Longrightarrow> establishes Q R (ret x)"
  unfolding establishes_def ret_def by simp

lemma establishes_fail: "establishes Q R (fail e)"
  unfolding establishes_def fail_def by simp

lemma establishes_pureResult: "(\<And>x. r = Inr x \<Longrightarrow> R x) \<Longrightarrow> establishes Q R (pureResult r)"
  unfolding establishes_def pureResult_def by simp

lemma establishes_andThen:
  assumes m: "establishes Q R m" and f: "\<And>x. R x \<Longrightarrow> establishes Q R' (f x)"
  shows "establishes Q R' (andThen m f)"
proof (rule establishesI)
  fix log r log' assume run: "andThen m f log = (r, log')"
  obtain r1 log1 where m1: "m log = (r1, log1)" by (cases "m log")
  from establishes_log[OF m m1] obtain es1 where es1: "log1 = log @ es1" "\<forall>e \<in> set es1. Q e"
    by blast
  show "\<exists>es. log' = log @ es \<and> (\<forall>e \<in> set es. Q e)"
  proof (cases r1)
    case (Inl e)
    then show ?thesis using run m1 es1 by (auto simp: andThen_def)
  next
    case (Inr x)
    then have fx: "f x log1 = (r, log')" using run m1 by (simp add: andThen_def)
    have "R x" using establishes_ret[OF m] m1 Inr by blast
    from establishes_log[OF f[OF this] fx] obtain es2 where "log' = log1 @ es2" "\<forall>e \<in> set es2. Q e"
      by blast
    then have "log' = log @ (es1 @ es2) \<and> (\<forall>e \<in> set (es1 @ es2). Q e)" using es1 by auto
    then show ?thesis by blast
  qed
next
  fix log y log' assume run: "andThen m f log = (Inr y, log')"
  obtain r1 log1 where m1: "m log = (r1, log1)" by (cases "m log")
  show "R' y"
  proof (cases r1)
    case (Inl e)
    then show ?thesis using run m1 by (simp add: andThen_def)
  next
    case (Inr x)
    then have fx: "f x log1 = (Inr y, log')" using run m1 by (simp add: andThen_def)
    have "R x" using establishes_ret[OF m] m1 Inr by blast
    from establishes_ret[OF f[OF this] fx] show ?thesis .
  qed
qed

lemma establishes_forEach:
  assumes "\<And>x. x \<in> set xs \<Longrightarrow> establishes Q (\<lambda>_. True) (body x)"
  shows "establishes Q (\<lambda>_. True) (forEach body xs)"
  using assms
proof (induction xs)
  case Nil
  show ?case unfolding establishes_def by simp
next
  case (Cons x xs)
  have eq: "forEach body (x # xs) = andThen (body x) (\<lambda>_. forEach body xs)"
    by (rule ext) (simp add: andThen_def split: prod.splits sum.splits)
  show ?case unfolding eq
    by (rule establishes_andThen[where R="\<lambda>_. True"]) (simp_all add: Cons)
qed

subsection \<open>Polling\<close>

lemma waitUpload_reaches:
  assumes "\<forall>i<n. \<exists>u. GetUpload w (log @ replicate i (Call_GetUpload arn)) arn = Inr u
              \<and> uploadStatus u \<noteq> ''SUCCEEDED''"
    and "\<exists>u. GetUpload w (log @ replicate n (Call_GetUpload arn)) arn = Inr u
              \<and> uploadStatus u = ''SUCCEEDED''"
    and "n < fuel"
  shows "waitUpload fuel w arn log = (Inr (), log @ replicate (Suc n) (Call_GetUpload arn))"
  using assms
proof (induction n arbitrary: fuel log)
  case 0
  then obtain f where "fuel = Suc f" by (cases fuel) auto
  with 0 show ?case by auto
next
  case (Suc n)
  then obtain f where f: "fuel = Suc f" "n < f" by (cases fuel) auto
  from Suc.prems(1) obtain u where u: "GetUpload w log arn = Inr u" "uploadStatus u \<noteq> ''SUCCEEDED''"
    by force
  have step: "log @ replicate (Suc i) (Call_GetUpload arn)
                = (log @ [Call_GetUpload arn]) @ replicate i (Call_GetUpload arn)" for i
    by (simp add: replicate_app_Cons_same)
  have a1: "\<forall>i<n. \<exists>u. GetUpload w ((log @ [Call_GetUpload arn]) @ replicate i (Call_GetUpload arn)) arn = Inr u
              \<and> uploadStatus u \<noteq> ''SUCCEEDED''"
    using Suc.prems(1) unfolding step[symmetric] by auto
  have a2: "\<exists>u. GetUpload w ((log @ [Call_GetUpload arn]) @ replicate n (Call_GetUpload arn)) arn = Inr u
              \<and> uploadStatus u = ''SUCCEEDED''"
    using Suc.prems(2) unfolding step[symmetric] .
  have "waitUpload f w arn (log @ [Call_GetUpload arn])
          = (Inr (), (log @ [Call_GetUpload arn]) @ replicate (Suc n) (Call_GetUpload arn))"
    by (rule Suc.IH[OF a1 a2 f(2)])
  then show ?case using u f(1) step[of "Suc n"] by simp
qed

lemma waitUpload_never:
  assumes "\<forall>i. \<exists>u. GetUpload w (log @ replicate i (Call_GetUpload arn)) arn = Inr u
              \<and> uploadStatus u \<noteq> ''SUCCEEDED''"
  shows "waitUpload fuel w arn log = (Inl StillPolling, log @ replicate fuel (Call_GetUpload arn))"
  using assms
proof (induction fuel arbitrary: log)
  case 0
  show ?case by simp
next
  case (Suc fuel)
  from Suc.prems obtain u where u: "GetUpload w log arn = Inr u" "uploadStatus u \<noteq> ''SUCCEEDED''"
    by (metis append_Nil2 replicate_0)
  have step: "log @ replicate (Suc i) (Call_GetUpload arn)
                = (log @ [Call_GetUpload arn]) @ replicate i (Call_GetUpload arn)" for i
    by (simp add: replicate_app_Cons_same)
  have "\<forall>i. \<exists>u. GetUpload w ((log @ [Call_GetUpload arn]) @ replicate i (Call_GetUpload arn)) arn = Inr u
              \<and> uploadStatus u \<noteq> ''SUCCEEDED''"
    using Suc.prems unfolding step[symmetric] by blast
  from Suc.IH[OF this] show ?case using u step[of fuel] by simp
qed

lemma waitRun_reaches:
  assumes "\<forall>i<n. \<exists>u. GetRun w (log @ replicate i (Call_GetRun arn)) arn = Inr u
              \<and> runStatus u \<noteq> ''COMPLETED''"
    and "\<exists>u. GetRun w (log @ replicate n (Call_GetRun arn)) arn = Inr u
              \<and> runStatus u = ''COMPLETED''"
    and "n < fuel"
  shows "waitRun fuel w arn log = (Inr (), log @ replicate (Suc n) (Call_GetRun arn))"
  using assms
proof (induction n arbitrary: fuel log)
  case 0
  then obtain f where "fuel = Suc f" by (cases fuel) auto
  with 0 show ?case by auto
next
  case (Suc n)
  then obtain f where f: "fuel = Suc f" "n < f" by (cases fuel) auto
  from Suc.prems(1) obtain u where u: "GetRun w log arn = Inr u" "runStatus u \<noteq> ''COMPLETED''"
    by force
  have step: "log @ replicate (Suc i) (Call_GetRun arn)
                = (log @ [Call_GetRun arn]) @ replicate i (Call_GetRun arn)" for i
    by (simp add: replicate_app_Cons_same)
  have a1: "\<forall>i<n. \<exists>u. GetRun w ((log @ [Call_GetRun arn]) @ replicate i (Call_GetRun arn)) arn = Inr u
              \<and> runStatus u \<noteq> ''COMPLETED''"
    using Suc.prems(1) unfolding step[symmetric] by auto
  have a2: "\<exists>u. GetRun w ((log @ [Call_GetRun arn]) @ replicate n (Call_GetRun arn)) arn = Inr u
              \<and> runStatus u = ''COMPLETED''"
    using Suc.prems(2) unfolding step[symmetric] .
  have "waitRun f w arn (log @ [Call_GetRun arn])
          = (Inr (), (log @ [Call_GetRun arn]) @ replicate (Suc n) (Call_GetRun arn))"
    by (rule Suc.IH[OF a1 a2 f(2)])
  then show ?case using u f(1) step[of "Suc n"] by simp
qed

lemma waitRun_never:
  assumes "\<forall>i. \<exists>u. GetRun w (log @ replicate i (Call_GetRun arn)) arn = Inr u
              \<and> runStatus u \<noteq> ''COMPLETED''"
  shows "waitRun fuel w arn log = (Inl StillPolling, log @ replicate fuel (Call_GetRun arn))"
  using assms
proof (induction fuel arbitrary: log)
  case 0
  show ?case by simp
next
  case (Suc fuel)
  from Suc.prems obtain u where u: "GetRun w log arn = Inr u" "runStatus u \<noteq> ''COMPLETED''"
    by (metis append_Nil2 replicate_0)
  have step: "log @ replicate (Suc i) (Call_GetRun arn)
                = (log @ [Call_GetRun arn]) @ replicate i (Call_GetRun arn)" for i
    by (simp add: replicate_app_Cons_same)
  have "\<forall>i. \<exists>u. GetRun w ((log @ [Call_GetRun arn]) @ replicate i (Call_GetRun arn)) arn = Inr u
              \<and> runStatus u \<noteq> ''COMPLETED''"
    using Suc.prems unfolding step[symmetric] by blast
  from Suc.IH[OF this] show ?case using u step[of fuel] by simp
qed

lemma uploadAnswers_iff:
  "uploadAnswers w log arn i s \<longleftrightarrow>
     (\<exists>u. GetUpload w (log @ replicate i (Call_GetUpload arn)) arn = Inr u \<and> uploadStatus u = s)"
  by (simp add: uploadAnswers_def split: sum.splits)

lemma runAnswers_iff:
  "runAnswers w log arn i s \<longleftrightarrow>
     (\<exists>u. GetRun w (log @ replicate i (Call_GetRun arn)) arn = Inr u \<and> runStatus u = s)"
  by (simp add: runAnswers_def split: sum.splits)


subsection \<open>The uploader's log\<close>

lemma waitUpload_emits:
  "establishes (\<lambda>e. e = Call_GetUpload arn) (\<lambda>_. True) (waitUpload fuel w arn)"
proof (rule establishesI)
  fix log r log' assume "waitUpload fuel w arn log = (r, log')"
  then show "\<exists>es. log' = log @ es \<and> (\<forall>e \<in> set es. e = Call_GetUpload arn)"
  proof (induction fuel arbitrary: log)
    case 0
    then show ?case by simp
  next
    case (Suc fuel)
    show ?case
    proof (cases "GetUpload w log arn")
      case (Inl e)
      with Suc.prems show ?thesis by auto
    next
      case (Inr u)
      show ?thesis
      proof (cases "uploadStatus u = ''SUCCEEDED''")
        case True
        with Suc.prems Inr show ?thesis by auto
      next
        case False
        with Suc.prems Inr have "waitUpload fuel w arn (log @ [Call_GetUpload arn]) = (r, log')"
          by simp
        from Suc.IH[OF this] obtain es where
          "log' = (log @ [Call_GetUpload arn]) @ es" "\<forall>e \<in> set es. e = Call_GetUpload arn"
          by blast
        then have "log' = log @ (Call_GetUpload arn # es)
                     \<and> (\<forall>e \<in> set (Call_GetUpload arn # es). e = Call_GetUpload arn)"
          by simp
        then show ?thesis by blast
      qed
    qed
  qed
qed simp

lemma waitRun_emits:
  "establishes (\<lambda>e. e = Call_GetRun arn) (\<lambda>_. True) (waitRun fuel w arn)"
proof (rule establishesI)
  fix log r log' assume "waitRun fuel w arn log = (r, log')"
  then show "\<exists>es. log' = log @ es \<and> (\<forall>e \<in> set es. e = Call_GetRun arn)"
  proof (induction fuel arbitrary: log)
    case 0
    then show ?case by simp
  next
    case (Suc fuel)
    show ?case
    proof (cases "GetRun w log arn")
      case (Inl e)
      with Suc.prems show ?thesis by auto
    next
      case (Inr u)
      show ?thesis
      proof (cases "runStatus u = ''COMPLETED''")
        case True
        with Suc.prems Inr show ?thesis by auto
      next
        case False
        with Suc.prems Inr have "waitRun fuel w arn (log @ [Call_GetRun arn]) = (r, log')"
          by simp
        from Suc.IH[OF this] obtain es where
          "log' = (log @ [Call_GetRun arn]) @ es" "\<forall>e \<in> set es. e = Call_GetRun arn"
          by blast
        then have "log' = log @ (Call_GetRun arn # es)
                     \<and> (\<forall>e \<in> set (Call_GetRun arn # es). e = Call_GetRun arn)"
          by simp
        then show ?thesis by blast
      qed
    qed
  qed
qed simp

lemma uploadPut_establishes:
  "establishes (uploadEvent (uploadRequest path ty proj nm))
     (\<lambda>u. \<exists>l. CreateUpload w l (uploadRequest path ty proj nm) = Inr u)
     (uploadPut fuel w path ty proj nm)"
proof (rule establishesI)
  fix log r log' assume run: "uploadPut fuel w path ty proj nm log = (r, log')"
  let ?req = "uploadRequest path ty proj nm"
  let ?Q = "uploadEvent ?req"
  have wait: "\<exists>es. l' = l @ es \<and> (\<forall>e \<in> set es. ?Q e)"
    if "waitUpload fuel w a l = (r', l')" for a l r' l'
    using establishes_log[OF waitUpload_emits that] by (fastforce simp: uploadEvent_def)
  show "\<exists>es. log' = log @ es \<and> (\<forall>e \<in> set es. ?Q e)"
  proof (cases "OpenFile w log path")
    case (Inl e)
    with run show ?thesis by (auto simp: uploadPut_def uploadEvent_def)
  next
    case (Inr ob)
    show ?thesis
    proof (cases ob)
      case None
      with run Inr show ?thesis by (auto simp: uploadPut_def uploadEvent_def)
    next
      case (Some buffer)
      let ?log2 = "log @ [Call_OpenFile path, Call_CreateUpload ?req]"
      have q2: "\<forall>e \<in> set [Call_OpenFile path, Call_CreateUpload ?req]. ?Q e"
        by (simp add: uploadEvent_def)
      show ?thesis
      proof (cases "CreateUpload w (log @ [Call_OpenFile path]) ?req")
        case (Inl e)
        with run Inr Some have "log' = ?log2" by (simp add: uploadPut_def)
        with q2 show ?thesis by blast
      next
        case cu: (Inr uploadInfo)
        show ?thesis
        proof (cases "NewRequest w (uploadUrl uploadInfo)")
          case (Inl e)
          with run Inr Some cu have "log' = ?log2" by (simp add: uploadPut_def)
          with q2 show ?thesis by blast
        next
          case nr: (Inr x)
          show ?thesis
          proof (cases "CHR ''?'' \<in> set (uploadUrl uploadInfo)")
            case False
            with run Inr Some cu nr have "log' = ?log2" by (simp add: uploadPut_def)
            with q2 show ?thesis by blast
          next
            case True
            let ?put = "Call_HttpPut (uploadUrl uploadInfo) buffer"
            show ?thesis
            proof (cases "HttpPut w ?log2 (uploadUrl uploadInfo) buffer")
              case (Inl e)
              with run Inr Some cu nr True have "log' = log @ [Call_OpenFile path, Call_CreateUpload ?req, ?put]"
                by (simp add: uploadPut_def)
              moreover have "\<forall>e \<in> set [Call_OpenFile path, Call_CreateUpload ?req, ?put]. ?Q e"
                by (simp add: uploadEvent_def)
              ultimately show ?thesis by blast
            next
              case hp: (Inr y)
              obtain r4 log4 where w4: "waitUpload fuel w (uploadArn uploadInfo) (?log2 @ [?put]) = (r4, log4)"
                by (cases "waitUpload fuel w (uploadArn uploadInfo) (?log2 @ [?put])")
              with run Inr Some cu nr True hp have "log' = log4"
                by (auto simp: uploadPut_def split: sum.splits)
              moreover from wait[OF w4] obtain es where "log4 = (?log2 @ [?put]) @ es" "\<forall>e \<in> set es. ?Q e"
                by blast
              ultimately have "log' = log @ ([Call_OpenFile path, Call_CreateUpload ?req, ?put] @ es)
                  \<and> (\<forall>e \<in> set ([Call_OpenFile path, Call_CreateUpload ?req, ?put] @ es). ?Q e)"
                by (simp add: uploadEvent_def)
              then show ?thesis by blast
            qed
          qed
        qed
      qed
    qed
  qed
next
  fix log x log' assume run: "uploadPut fuel w path ty proj nm log = (Inr x, log')"
  then show "\<exists>l. CreateUpload w l (uploadRequest path ty proj nm) = Inr x"
    by (auto simp: uploadPut_def Let_def split: sum.splits option.splits if_splits prod.splits)
qed

lemma uploadPut_creates:
  assumes "OpenFile w log path = Inr (Some buffer)"
    and "uploadPut fuel w path ty proj nm log = (r, log')"
  shows "\<exists>es. log' = log @ [Call_OpenFile path, Call_CreateUpload (uploadRequest path ty proj nm)] @ es"
proof -
  let ?req = "uploadRequest path ty proj nm"
  let ?log2 = "log @ [Call_OpenFile path, Call_CreateUpload ?req]"
  have wait: "\<exists>es. l' = l @ es" if "waitUpload fuel w a l = (r', l')" for a l r' l'
    using establishes_log[OF waitUpload_emits that] by blast
  show ?thesis
  proof (cases "CreateUpload w (log @ [Call_OpenFile path]) ?req")
    case (Inl e)
    with assms show ?thesis by (auto simp: uploadPut_def)
  next
    case cu: (Inr uploadInfo)
    show ?thesis
    proof (cases "NewRequest w (uploadUrl uploadInfo)")
      case (Inl e)
      with assms cu show ?thesis by (auto simp: uploadPut_def)
    next
      case nr: (Inr x)
      show ?thesis
      proof (cases "CHR ''?'' \<in> set (uploadUrl uploadInfo)")
        case False
        with assms cu nr show ?thesis by (auto simp: uploadPut_def)
      next
        case True
        let ?put = "Call_HttpPut (uploadUrl uploadInfo) buffer"
        show ?thesis
        proof (cases "HttpPut w ?log2 (uploadUrl uploadInfo) buffer")
          case (Inl e)
          with assms cu nr True show ?thesis by (auto simp: uploadPut_def)
        next
          case hp: (Inr y)
          obtain r4 log4 where w4: "waitUpload fuel w (uploadArn uploadInfo) (?log2 @ [?put]) = (r4, log4)"
            by (cases "waitUpload fuel w (uploadArn uploadInfo) (?log2 @ [?put])")
          with assms cu nr True hp have "log' = log4"
            by (auto simp: uploadPut_def split: sum.splits)
          moreover from wait[OF w4] obtain es where "log4 = (?log2 @ [?put]) @ es" by blast
          ultimately show ?thesis by simp
        qed
      qed
    qed
  qed
qed


subsection \<open>The replacer\<close>

lemma Replace_unchanged: "\<not> sublist old s \<Longrightarrow> Replace old new s = s"
proof (induction s)
  case Nil
  show ?case by simp
next
  case (Cons c cs)
  then have "\<not> prefix old (c # cs)" and "\<not> sublist old cs"
    by (simp_all add: sublist_Cons_right)
  with Cons.IH show ?case by simp
qed

lemma Replace_first:
  assumes "old \<noteq> []" and "\<not> sublist old (p @ butlast old)"
  shows "Replace old new (p @ old @ r) = p @ new @ Replace old new r"
  using assms(2)
proof (induction p)
  case Nil
  from assms(1) obtain a old' where old: "old = a # old'" by (cases old) auto
  have "prefix old (a # old' @ r)" unfolding old by simp
  moreover have "drop (length old) (a # old' @ r) = r" unfolding old by simp
  ultimately have "Replace old new (a # old' @ r) = new @ Replace old new r"
    using assms(1) by simp
  then show ?case by (simp add: old)
next
  case (Cons c p)
  have whole: "c # p @ old @ r = (c # p @ butlast old) @ (last old # r)"
    using assms(1) by simp
  have "\<not> prefix old (c # p @ old @ r)"
  proof
    assume pre: "prefix old (c # p @ old @ r)"
    have "prefix (c # p @ butlast old) (c # p @ old @ r)"
      unfolding whole by (rule prefixI) simp
    moreover have "length old \<le> length (c # p @ butlast old)" by simp
    ultimately have "prefix old (c # p @ butlast old)"
      using pre by (rule prefix_length_prefix[rotated])
    then have "sublist old ((c # p) @ butlast old)" by (simp add: prefix_imp_sublist)
    with Cons.prems show False by simp
  qed
  moreover have "\<not> sublist old (p @ butlast old)"
    using Cons.prems by (simp add: sublist_Cons_right)
  ultimately show ?case using Cons.IH by simp
qed

lemma artifactPrefixOf_marker:
  assumes "\<not> sublist '':suite:'' (pre @ '':suite'')" and "\<not> sublist '':suite:'' q"
  shows "artifactPrefixOf (pre @ '':suite:'' @ q) = pre @ '':artifact:'' @ q"
proof -
  have "Replace '':suite:'' '':artifact:'' (pre @ '':suite:'' @ q)
          = pre @ '':artifact:'' @ Replace '':suite:'' '':artifact:'' q"
    by (rule Replace_first) (use assms(1) in simp_all)
  then show ?thesis using Replace_unchanged[OF assms(2)] by (simp add: artifactPrefixOf_def)
qed

subsection \<open>The device map\<close>

lemma deviceMap_snoc: "deviceMap (ds @ [d]) = (deviceMap ds)(deviceKey d \<mapsto> devArn d)"
  by (simp add: deviceMap_def)

lemma deviceMap_last:
  "deviceMap ds k =
     (if filter (\<lambda>m. deviceKey m = k) ds = [] then None
      else Some (devArn (last (filter (\<lambda>m. deviceKey m = k) ds))))"
proof (induction ds rule: rev_induct)
  case Nil
  show ?case by (simp add: deviceMap_def)
next
  case (snoc d ds)
  show ?case using snoc.IH by (simp add: deviceMap_snoc)
qed

lemma lookupDeviceArn_listed:
  assumes "ListDevices w log = Inr D"
  shows "lookupDeviceArn w k log =
     (if filter (\<lambda>m. deviceKey m = k) D \<noteq> [] \<and> devArn (last (filter (\<lambda>m. deviceKey m = k) D)) \<noteq> []
      then (Inr (devArn (last (filter (\<lambda>m. deviceKey m = k) D))), log @ [Call_ListDevices])
      else (Inl (Error (''failed to find a device with name '' @ k)), log @ [Call_ListDevices]))"
  using assms by (simp add: lookupDeviceArn_def failOnErr_def deviceMap_last)


subsection \<open>Actions that follow a plan\<close>

lemma followsI:
  assumes "\<And>log r log'. act log = (r, log')
             \<Longrightarrow> \<exists>es. log' = log @ es \<and> prefix es plan \<and> (r = Inr () \<longrightarrow> es = plan)"
  shows "follows plan act"
  using assms unfolding follows_def by blast

lemma followsD:
  assumes "follows plan act" and "act log = (r, log')"
  shows "\<exists>es. log' = log @ es \<and> prefix es plan \<and> (r = Inr () \<longrightarrow> es = plan)"
  using assms unfolding follows_def by blast

lemma follows_done:
  assumes "follows plan act" and "act log = (Inr (), log')"
  shows "log' = log @ plan"
  using followsD[OF assms] by auto

lemma follows_seq:
  assumes m: "follows p1 m" and f: "follows p2 f"
  shows "follows (p1 @ p2)
           (\<lambda>log. case m log of (Inl e, log') \<Rightarrow> (Inl e, log') | (Inr _, log') \<Rightarrow> f log')"
proof (rule followsI)
  fix log r log'
  assume run: "(case m log of (Inl e, log') \<Rightarrow> (Inl e, log') | (Inr _, log') \<Rightarrow> f log') = (r, log')"
  obtain r1 log1 where m1: "m log = (r1, log1)" by (cases "m log")
  from followsD[OF m m1] obtain es1 where
    es1: "log1 = log @ es1" "prefix es1 p1" "r1 = Inr () \<longrightarrow> es1 = p1" by blast
  show "\<exists>es. log' = log @ es \<and> prefix es (p1 @ p2) \<and> (r = Inr () \<longrightarrow> es = p1 @ p2)"
  proof (cases r1)
    case (Inl e)
    with run m1 have "r = Inl e" "log' = log1" by auto
    with es1 show ?thesis by (auto intro: prefix_prefix)
  next
    case (Inr u)
    with run m1 have fx: "f log1 = (r, log')" by simp
    from followsD[OF f fx] obtain es2 where
      es2: "log' = log1 @ es2" "prefix es2 p2" "r = Inr () \<longrightarrow> es2 = p2" by blast
    have "es1 = p1" using es1(3) Inr by simp
    with es1 es2 have "log' = log @ (p1 @ es2) \<and> prefix (p1 @ es2) (p1 @ p2)
        \<and> (r = Inr () \<longrightarrow> p1 @ es2 = p1 @ p2)"
      by simp
    then show ?thesis by blast
  qed
qed

lemma follows_forEach:
  assumes "\<And>x. x \<in> set xs \<Longrightarrow> follows (plan x) (body x)"
  shows "follows (concat (map plan xs)) (forEach body xs)"
  using assms
proof (induction xs)
  case Nil
  show ?case by (rule followsI) simp
next
  case (Cons x xs)
  have eq: "forEach body (x # xs)
     = (\<lambda>log. case body x log of (Inl e, log') \<Rightarrow> (Inl e, log') | (Inr _, log') \<Rightarrow> forEach body xs log')"
    by (rule ext) simp
  have c: "concat (map plan (x # xs)) = plan x @ concat (map plan xs)" by simp
  show ?case unfolding c eq by (rule follows_seq) (simp_all add: Cons)
qed

lemma downloadArtifact_follows:
  "follows [Call_Download fileName (artUrl a)] (downloadArtifact w fileName a)"
  by (rule followsI) (auto simp: downloadArtifact_def Let_def split: if_splits)

lemma plannedDownloads_Cons:
  "plannedDownloads dp p n (a # al) =
     (if prefix p (artArn a)
      then Call_Download (artifactFileName dp n a) (artUrl a) # plannedDownloads dp p (Suc n) al
      else plannedDownloads dp p n al)"
  by (simp add: plannedDownloads_def matching_def)

lemma scanArtifacts_follows:
  "follows (plannedDownloads dp p n al) (scanArtifacts w dp p n al)"
proof (induction al arbitrary: n)
  case Nil
  show ?case by (rule followsI) (simp add: plannedDownloads_def matching_def)
next
  case (Cons a al)
  show ?case
  proof (cases "prefix p (artArn a)")
    case False
    have eq: "scanArtifacts w dp p n (a # al) = scanArtifacts w dp p n al"
      by (rule ext) (simp add: False)
    have pc: "plannedDownloads dp p n (a # al) = plannedDownloads dp p n al"
      using False by (simp add: plannedDownloads_Cons)
    show ?thesis unfolding pc eq by (rule Cons)
  next
    case True
    have eq: "scanArtifacts w dp p n (a # al)
       = (\<lambda>log. case downloadArtifact w (artifactFileName dp n a) a log of
                  (Inl e, log') \<Rightarrow> (Inl e, log')
                | (Inr _, log') \<Rightarrow> scanArtifacts w dp p (Suc n) al log')"
      by (rule ext) (simp add: True)
    have pc: "plannedDownloads dp p n (a # al)
       = [Call_Download (artifactFileName dp n a) (artUrl a)] @ plannedDownloads dp p (Suc n) al"
      using True by (simp add: plannedDownloads_Cons)
    show ?thesis unfolding pc eq by (rule follows_seq[OF downloadArtifact_follows Cons])
  qed
qed

lemma downloadArtifactsForSuite_follows:
  "follows (suitePlan dp allArtifacts suite) (downloadArtifactsForSuite w dp allArtifacts suite)"
  unfolding suitePlan_def downloadArtifactsForSuite_def Let_def
  by (intro follows_forEach scanArtifacts_follows)


subsection \<open>The shape of the report\<close>

lemma artifactFileName_reportPath:
  "artifactFileName (dirPrefixOf job suite) i a = reportPath job suite i a"
  by (simp add: artifactFileName_def dirPrefixOf_def jobFriendlyName_def reportPath_def)

lemma suitePlan_events:
  assumes "e \<in> set (suitePlan dp allArtifacts suite)"
  shows "\<exists>t al i. t \<in> set artifactTypes \<and> al \<in> set (allArtifacts t)
           \<and> i < length (matching (artifactPrefixOf (suiteArn suite)) al)
           \<and> e = Call_Download
                   (artifactFileName dp i (matching (artifactPrefixOf (suiteArn suite)) al ! i))
                   (artUrl (matching (artifactPrefixOf (suiteArn suite)) al ! i))"
proof -
  let ?p = "artifactPrefixOf (suiteArn suite)"
  from assms obtain t al where t: "t \<in> set artifactTypes" and al: "al \<in> set (allArtifacts t)"
    and e: "e \<in> set (plannedDownloads dp ?p 0 al)"
    by (auto simp: suitePlan_def)
  from e obtain i a where ia: "(i, a) \<in> set (enumerate 0 (matching ?p al))"
    and e': "e = Call_Download (artifactFileName dp i a) (artUrl a)"
    by (auto simp: plannedDownloads_def)
  from ia have "i < length (matching ?p al)" and "a = matching ?p al ! i"
    by (auto simp: in_set_enumerate_eq)
  with t al e' show ?thesis by blast
qed

lemma follows_emits:
  assumes "follows plan act" and "act log = (r, log')"
  shows "\<exists>es. log' = log @ es \<and> set es \<subseteq> set plan"
  using followsD[OF assms] by (auto dest: set_mono_prefix)

lemma fetchArtifacts_establishes:
  assumes "listedArtifacts w arn arts0" and "set ts \<subseteq> set artifactTypes"
  shows "establishes (\<lambda>e. \<exists>t. e = Call_ListArtifacts arn t) (listedArtifacts w arn)
           (fetchArtifacts w arn ts arts0)"
  using assms
proof (induction ts arbitrary: arts0)
  case Nil
  then show ?case by (simp add: establishes_def)
next
  case (Cons t ts)
  show ?case
  proof (rule establishesI)
    fix log r log' assume run: "fetchArtifacts w arn (t # ts) arts0 log = (r, log')"
    show "\<exists>es. log' = log @ es \<and> (\<forall>e \<in> set es. \<exists>t. e = Call_ListArtifacts arn t)"
    proof (cases "ListArtifacts w log arn t")
      case (Inl e)
      with run show ?thesis by (auto simp: failOnErr_def)
    next
      case (Inr al)
      let ?arts = "arts0(t := arts0 t @ [al])"
      have l: "listedArtifacts w arn ?arts"
        using Cons.prems Inr by (auto simp: listedArtifacts_def)
      from run Inr have "fetchArtifacts w arn ts ?arts (log @ [Call_ListArtifacts arn t]) = (r, log')"
        by (simp add: failOnErr_def)
      from establishes_log[OF Cons.IH[OF l] this] Cons.prems(2)
      obtain es where "log' = (log @ [Call_ListArtifacts arn t]) @ es"
        "\<forall>e \<in> set es. \<exists>t. e = Call_ListArtifacts arn t" by auto
      then have "log' = log @ (Call_ListArtifacts arn t # es)
          \<and> (\<forall>e \<in> set (Call_ListArtifacts arn t # es). \<exists>t. e = Call_ListArtifacts arn t)"
        by simp
      then show ?thesis by blast
    qed
  next
    fix log x log' assume run: "fetchArtifacts w arn (t # ts) arts0 log = (Inr x, log')"
    show "listedArtifacts w arn x"
    proof (cases "ListArtifacts w log arn t")
      case (Inl e)
      with run show ?thesis by (simp add: failOnErr_def)
    next
      case (Inr al)
      let ?arts = "arts0(t := arts0 t @ [al])"
      have l: "listedArtifacts w arn ?arts"
        using Cons.prems Inr by (auto simp: listedArtifacts_def)
      from run Inr have "fetchArtifacts w arn ts ?arts (log @ [Call_ListArtifacts arn t]) = (Inr x, log')"
        by (simp add: failOnErr_def)
      from establishes_ret[OF Cons.IH[OF l] this] Cons.prems(2) show ?thesis by simp
    qed
  qed
qed

lemma reportJob_establishes:
  assumes arts: "listedArtifacts w arn arts"
    and job: "\<exists>l jobs. ListJobs w l arn = Inr jobs \<and> job \<in> set jobs"
  shows "establishes (reportEvent w arn) (\<lambda>_. True) (reportJob w arts job)"
proof (rule establishesI)
  fix log r log' assume run: "reportJob w arts job log = (r, log')"
  show "\<exists>es. log' = log @ es \<and> (\<forall>e \<in> set es. reportEvent w arn e)"
  proof (cases "ListSuites w log (jobArn job)")
    case (Inl e)
    with run have "log' = log @ [Call_ListSuites (jobArn job)]"
      by (auto simp: reportJob_def failOnErr_def)
    then show ?thesis by (simp add: reportEvent_def)
  next
    case (Inr suites)
    let ?plan = "\<lambda>suite. suitePlan (dirPrefixOf job suite) arts suite"
    let ?body = "\<lambda>suite. downloadArtifactsForSuite w (dirPrefixOf job suite) arts suite"
    from run Inr have fe: "forEach ?body suites (log @ [Call_ListSuites (jobArn job)]) = (r, log')"
      by (simp add: reportJob_def failOnErr_def)
    have "follows (concat (map ?plan suites)) (forEach ?body suites)"
      by (intro follows_forEach downloadArtifactsForSuite_follows)
    from follows_emits[OF this fe] obtain es where
      es: "log' = (log @ [Call_ListSuites (jobArn job)]) @ es" "set es \<subseteq> set (concat (map ?plan suites))"
      by blast
    have "reportEvent w arn e" if "e \<in> set es" for e
    proof -
      from that es(2) obtain suite where s: "suite \<in> set suites" and e: "e \<in> set (?plan suite)"
        by auto
      from suitePlan_events[OF e] obtain t al i where
        t: "t \<in> set artifactTypes" and al: "al \<in> set (arts t)"
        and i: "i < length (matching (artifactPrefixOf (suiteArn suite)) al)"
        and ev: "e = Call_Download
                   (reportPath job suite i (matching (artifactPrefixOf (suiteArn suite)) al ! i))
                   (artUrl (matching (artifactPrefixOf (suiteArn suite)) al ! i))"
        unfolding artifactFileName_reportPath by blast
      from arts al obtain l where "ListArtifacts w l arn t = Inr al"
        by (auto simp: listedArtifacts_def)
      with job Inr s t i have "pathShape w arn
          (reportPath job suite i (matching (artifactPrefixOf (suiteArn suite)) al ! i))
          (artUrl (matching (artifactPrefixOf (suiteArn suite)) al ! i))"
        unfolding pathShape_def by blast
      then show ?thesis by (simp add: ev reportEvent_def)
    qed
    with es(1) have "log' = log @ (Call_ListSuites (jobArn job) # es)
        \<and> (\<forall>e \<in> set (Call_ListSuites (jobArn job) # es). reportEvent w arn e)"
      by (simp add: reportEvent_def)
    then show ?thesis by blast
  qed
qed simp

lemma runReport_establishes:
  "establishes (reportEvent w arn) (\<lambda>_. True) (runReport w arn)"
proof (rule establishesI)
  fix log r log' assume run: "runReport w arn log = (r, log')"
  let ?log1 = "log @ [Call_GetRun arn]"
  show "\<exists>es. log' = log @ es \<and> (\<forall>e \<in> set es. reportEvent w arn e)"
  proof (cases "GetRun w log arn")
    case (Inl e)
    with run have "log' = ?log1" by (auto simp: runReport_def failOnErr_def)
    then show ?thesis by (simp add: reportEvent_def)
  next
    case gr: (Inr resp)
    obtain r2 log2 where f: "fetchArtifacts w arn artifactTypes (\<lambda>_. []) ?log1 = (r2, log2)"
      by (cases "fetchArtifacts w arn artifactTypes (\<lambda>_. []) ?log1")
    have fe: "establishes (\<lambda>e. \<exists>t. e = Call_ListArtifacts arn t) (listedArtifacts w arn)
           (fetchArtifacts w arn artifactTypes (\<lambda>_. []))"
      by (rule fetchArtifacts_establishes) (simp_all add: listedArtifacts_def)
    from establishes_log[OF fe f] obtain es2 where
      es2: "log2 = ?log1 @ es2" "\<forall>e \<in> set es2. \<exists>t. e = Call_ListArtifacts arn t" by blast
    have q2: "\<forall>e \<in> set (Call_GetRun arn # es2). reportEvent w arn e"
      using es2(2) by (auto simp: reportEvent_def)
    show ?thesis
    proof (cases r2)
      case (Inl e)
      with run gr f have "log' = log2" by (simp add: runReport_def failOnErr_def)
      with es2(1) q2 have "log' = log @ (Call_GetRun arn # es2)" by simp
      with q2 show ?thesis by blast
    next
      case fa: (Inr arts)
      have arts: "listedArtifacts w arn arts"
        using establishes_ret[OF fe] f fa by blast
      show ?thesis
      proof (cases "ListJobs w log2 arn")
        case (Inl e)
        with run gr f fa have "log' = log2 @ [Call_ListJobs arn]"
          by (auto simp: runReport_def failOnErr_def)
        with es2(1) have "log' = log @ (Call_GetRun arn # es2 @ [Call_ListJobs arn])" by simp
        moreover have "\<forall>e \<in> set (Call_GetRun arn # es2 @ [Call_ListJobs arn]). reportEvent w arn e"
          using q2 by (auto simp: reportEvent_def)
        ultimately show ?thesis by blast
      next
        case lj: (Inr jobs)
        with run gr f fa have fj: "forEach (reportJob w arts) jobs (log2 @ [Call_ListJobs arn]) = (r, log')"
          by (simp add: runReport_def failOnErr_def)
        have "establishes (reportEvent w arn) (\<lambda>_. True) (forEach (reportJob w arts) jobs)"
          by (rule establishes_forEach, rule reportJob_establishes[OF arts]) (use lj in blast)
        from establishes_log[OF this fj] obtain es3 where
          es3: "log' = (log2 @ [Call_ListJobs arn]) @ es3" "\<forall>e \<in> set es3. reportEvent w arn e"
          by blast
        with es2(1) have "log' = log @ (Call_GetRun arn # es2 @ Call_ListJobs arn # es3)" by simp
        moreover have "\<forall>e \<in> set (Call_GetRun arn # es2 @ Call_ListJobs arn # es3). reportEvent w arn e"
          using q2 es3(2) by (auto simp: reportEvent_def)
        ultimately show ?thesis by blast
      qed
    qed
  qed
qed simp


lemma farmWorld_runReport: "runReport farmWorld ''arn:1:run:r'' log = (Inr (), log @ farmReport)"
  by (simp add: runReport_def reportJob_def failOnErr_def farmWorld_def farmJobs_def
      farmSuites_def farmLogs_def farmScreens_def logArtifact_def artifactTypes_def
      downloadArtifactsForSuite_def artifactPrefixOf_def downloadArtifact_def
      dirPrefixOf_def jobFriendlyName_def artifactFileName_def farmReport_def
      char_of_def bit_Suc_0_iff Let_def)


subsection \<open>The report against unchanged run data\<close>

lemma reportJob_follows:
  assumes "\<forall>l. ListSuites w l (jobArn job) = ListSuites w [] (jobArn job)"
  shows "follows (jobPlan w arts job) (reportJob w arts job)"
proof (rule followsI)
  fix log r log' assume run: "reportJob w arts job log = (r, log')"
  have ls: "ListSuites w log (jobArn job) = ListSuites w [] (jobArn job)"
    using assms by blast
  show "\<exists>es. log' = log @ es \<and> prefix es (jobPlan w arts job)
          \<and> (r = Inr () \<longrightarrow> es = jobPlan w arts job)"
  proof (cases "ListSuites w [] (jobArn job)")
    case (Inl e)
    with run ls have "log' = log @ [Call_ListSuites (jobArn job)]" "r = Inl (Fatal e)"
      by (auto simp: reportJob_def failOnErr_def)
    moreover have "jobPlan w arts job = [Call_ListSuites (jobArn job)]"
      using Inl by (simp add: jobPlan_def)
    ultimately show ?thesis by simp
  next
    case (Inr suites)
    let ?plan = "\<lambda>suite. suitePlan (dirPrefixOf job suite) arts suite"
    let ?body = "\<lambda>suite. downloadArtifactsForSuite w (dirPrefixOf job suite) arts suite"
    from run ls Inr have fe: "forEach ?body suites (log @ [Call_ListSuites (jobArn job)]) = (r, log')"
      by (simp add: reportJob_def failOnErr_def)
    have "follows (concat (map ?plan suites)) (forEach ?body suites)"
      by (intro follows_forEach downloadArtifactsForSuite_follows)
    from followsD[OF this fe] obtain es where
      es: "log' = (log @ [Call_ListSuites (jobArn job)]) @ es"
          "prefix es (concat (map ?plan suites))"
          "r = Inr () \<longrightarrow> es = concat (map ?plan suites)"
      by blast
    have jp: "jobPlan w arts job = Call_ListSuites (jobArn job) # concat (map ?plan suites)"
      using Inr by (simp add: jobPlan_def)
    from es have "log' = log @ (Call_ListSuites (jobArn job) # es)
        \<and> prefix (Call_ListSuites (jobArn job) # es) (jobPlan w arts job)
        \<and> (r = Inr () \<longrightarrow> Call_ListSuites (jobArn job) # es = jobPlan w arts job)"
      unfolding jp by simp
    then show ?thesis by blast
  qed
qed

lemma fetchArtifacts_plan:
  assumes st: "\<forall>l t. ListArtifacts w l arn t = ListArtifacts w [] arn t"
    and run: "fetchArtifacts w arn ts arts0 log = (r, log')"
  shows "(\<exists>es. log' = log @ es \<and> prefix es (map (Call_ListArtifacts arn) ts))
     \<and> (\<forall>arts. r = Inr arts \<longrightarrow> log' = log @ map (Call_ListArtifacts arn) ts
            \<and> arts = planArtifacts (listingOf w arn) ts arts0)"
  using run
proof (induction ts arbitrary: arts0 log)
  case Nil
  then show ?case by auto
next
  case (Cons t ts)
  have la: "ListArtifacts w log arn t = ListArtifacts w [] arn t" using st by blast
  show ?case
  proof (cases "ListArtifacts w [] arn t")
    case (Inl e)
    with Cons.prems la have "log' = log @ [Call_ListArtifacts arn t]" "r = Inl (Fatal e)"
      by (auto simp: failOnErr_def)
    then show ?thesis by simp
  next
    case (Inr al)
    then have lo: "listingOf w arn t = al" by (simp add: listingOf_def)
    from Cons.prems la Inr
    have "fetchArtifacts w arn ts (arts0(t := arts0 t @ [al])) (log @ [Call_ListArtifacts arn t]) = (r, log')"
      by (simp add: failOnErr_def)
    from Cons.IH[OF this] obtain es where
      es: "log' = (log @ [Call_ListArtifacts arn t]) @ es" "prefix es (map (Call_ListArtifacts arn) ts)"
      and fin: "\<forall>arts. r = Inr arts \<longrightarrow> log' = (log @ [Call_ListArtifacts arn t]) @ map (Call_ListArtifacts arn) ts
            \<and> arts = planArtifacts (listingOf w arn) ts (arts0(t := arts0 t @ [al]))"
      by blast
    from es have "log' = log @ (Call_ListArtifacts arn t # es)
        \<and> prefix (Call_ListArtifacts arn t # es) (map (Call_ListArtifacts arn) (t # ts))"
      by simp
    moreover from fin have "\<forall>arts. r = Inr arts \<longrightarrow> log' = log @ map (Call_ListArtifacts arn) (t # ts)
            \<and> arts = planArtifacts (listingOf w arn) (t # ts) arts0"
      by (simp add: lo)
    ultimately show ?thesis by blast
  qed
qed

lemma runReport_follows:
  assumes la: "\<forall>l t. ListArtifacts w l arn t = ListArtifacts w [] arn t"
    and lj: "\<forall>l. ListJobs w l arn = ListJobs w [] arn"
    and ls: "\<forall>l j. ListSuites w l j = ListSuites w [] j"
  shows "follows (reportPlan w arn) (runReport w arn)"
proof (rule followsI)
  fix log r log' assume run: "runReport w arn log = (r, log')"
  let ?log1 = "log @ [Call_GetRun arn]"
  let ?las = "map (Call_ListArtifacts arn) artifactTypes"
  let ?arts = "planArtifacts (listingOf w arn) artifactTypes (\<lambda>_. [])"
  let ?tail = "case ListJobs w [] arn of Inl e \<Rightarrow> [] | Inr jobs \<Rightarrow> concat (map (jobPlan w ?arts) jobs)"
  have plan: "reportPlan w arn = Call_GetRun arn # ?las @ Call_ListJobs arn # ?tail"
    by (simp add: reportPlan_def)
  show "\<exists>es. log' = log @ es \<and> prefix es (reportPlan w arn) \<and> (r = Inr () \<longrightarrow> es = reportPlan w arn)"
  proof (cases "GetRun w log arn")
    case (Inl e)
    with run have "log' = log @ [Call_GetRun arn]" "r = Inl (Fatal e)"
      by (auto simp: runReport_def failOnErr_def)
    then show ?thesis unfolding plan by simp
  next
    case gr: (Inr resp)
    obtain r2 log2 where f: "fetchArtifacts w arn artifactTypes (\<lambda>_. []) ?log1 = (r2, log2)"
      by (cases "fetchArtifacts w arn artifactTypes (\<lambda>_. []) ?log1")
    from fetchArtifacts_plan[OF la f] obtain es2 where
      es2: "log2 = ?log1 @ es2" "prefix es2 ?las"
      and fin: "\<forall>arts. r2 = Inr arts \<longrightarrow> log2 = ?log1 @ ?las \<and> arts = ?arts"
      by blast
    show ?thesis
    proof (cases r2)
      case (Inl e)
      with run gr f have "log' = log2" "r = Inl e" by (auto simp: runReport_def failOnErr_def)
      with es2 have "log' = log @ (Call_GetRun arn # es2)
          \<and> prefix (Call_GetRun arn # es2) (reportPlan w arn)
          \<and> (r = Inr () \<longrightarrow> Call_GetRun arn # es2 = reportPlan w arn)"
        unfolding plan by (auto intro: prefix_prefix)
      then show ?thesis by blast
    next
      case fa: (Inr arts)
      with fin have l2: "log2 = ?log1 @ ?las" and arts: "arts = ?arts" by auto
      have ljl: "ListJobs w log2 arn = ListJobs w [] arn" using lj by blast
      show ?thesis
      proof (cases "ListJobs w [] arn")
        case (Inl e)
        with run gr f fa ljl have "log' = log2 @ [Call_ListJobs arn]" "r = Inl (Fatal e)"
          by (auto simp: runReport_def failOnErr_def)
        with l2 have "log' = log @ (Call_GetRun arn # ?las @ [Call_ListJobs arn])" by simp
        moreover have "reportPlan w arn = Call_GetRun arn # ?las @ [Call_ListJobs arn]"
          unfolding plan using Inl by simp
        ultimately show ?thesis using \<open>r = Inl (Fatal e)\<close> by auto
      next
        case jobs: (Inr jobs)
        with run gr f fa ljl
        have fj: "forEach (reportJob w arts) jobs (log2 @ [Call_ListJobs arn]) = (r, log')"
          by (simp add: runReport_def failOnErr_def)
        have "follows (concat (map (jobPlan w arts) jobs)) (forEach (reportJob w arts) jobs)"
          by (rule follows_forEach, rule reportJob_follows) (use ls in blast)
        from followsD[OF this fj] obtain es3 where
          es3: "log' = (log2 @ [Call_ListJobs arn]) @ es3"
               "prefix es3 (concat (map (jobPlan w arts) jobs))"
               "r = Inr () \<longrightarrow> es3 = concat (map (jobPlan w arts) jobs)"
          by blast
        have plan': "reportPlan w arn = Call_GetRun arn # ?las @ Call_ListJobs arn # concat (map (jobPlan w arts) jobs)"
          unfolding plan arts using jobs by simp
        from es3 l2 have "log' = log @ (Call_GetRun arn # ?las @ Call_ListJobs arn # es3)
            \<and> prefix (Call_GetRun arn # ?las @ Call_ListJobs arn # es3) (reportPlan w arn)
            \<and> (r = Inr () \<longrightarrow> Call_GetRun arn # ?las @ Call_ListJobs arn # es3 = reportPlan w arn)"
          unfolding plan' by simp
        then show ?thesis by blast
      qed
    qed
  qed
qed

lemma reportPlan_same:
  assumes la: "\<forall>l l' t. ListArtifacts w l arn t = ListArtifacts w' l' arn t"
    and lj: "\<forall>l l'. ListJobs w l arn = ListJobs w' l' arn"
    and ls: "\<forall>l l' j. ListSuites w l j = ListSuites w' l' j"
  shows "reportPlan w arn = reportPlan w' arn"
proof -
  have "ListArtifacts w [] arn t = ListArtifacts w' [] arn t" for t
    using la by blast
  then have h1: "listingOf w arn = listingOf w' arn"
    by (simp add: listingOf_def fun_eq_iff)
  have "ListSuites w [] j = ListSuites w' [] j" for j
    using ls by blast
  then have "jobPlan w arts job = jobPlan w' arts job" for arts job
    by (simp add: jobPlan_def)
  then have h2: "jobPlan w = jobPlan w'" by (simp add: fun_eq_iff)
  have h3: "ListJobs w [] arn = ListJobs w' [] arn" using lj by blast
  show ?thesis unfolding reportPlan_def h1 h2 h3 ..
qed


subsection \<open>The scheduler's log\<close>

lemma uploadPut_schedOK:
  "establishes (schedOK P) (\<lambda>u. \<exists>l. CreateUpload w l (uploadRequest path ty proj nm) = Inr u)
     (uploadPut fuel w path ty proj nm)"
proof (rule establishes_weaken[OF uploadPut_establishes])
  fix e assume "uploadEvent (uploadRequest path ty proj nm) e"
  then show "schedOK P e" by (cases e) (simp_all add: uploadEvent_def schedOK_def)
qed

lemma createPoolFromDevice_schedOK:
  "establishes (schedOK P) (\<lambda>_. True) (createPoolFromDevice w pn dn proj)"
proof (rule establishesI)
  fix log r log' assume run: "createPoolFromDevice w pn dn proj log = (r, log')"
  have "log' = log @ [Call_ListDevices]
      \<or> (\<exists>req. log' = log @ [Call_ListDevices, Call_CreateDevicePool req])"
    using run
    by (auto simp: createPoolFromDevice_def lookupDeviceArn_def failOnErr_def Let_def
        split: sum.splits if_splits failure.splits prod.splits)
  then show "\<exists>es. log' = log @ es \<and> (\<forall>e \<in> set es. schedOK P e)"
    by (auto simp: schedOK_def)
qed simp

lemma appStep_schedOK: "establishes (schedOK P) (\<lambda>_. True) (appStep fuel w c)"
proof (cases "cfg_appFile c = []")
  case True
  then show ?thesis by (simp add: appStep_def establishes_ret_action)
next
  case False
  have ty: "establishes (schedOK P) (\<lambda>_. True)
      (if cfg_appType c = [] then pureResult (guessAppType (UnicodeToLower w) (cfg_appFile c)) else ret (cfg_appType c))"
    by (simp add: establishes_pureResult establishes_ret_action)
  have up: "establishes (schedOK P) (\<lambda>_. True)
      (andThen (uploadPut fuel w (cfg_appFile c) t (cfg_projectArn c) [])
         (\<lambda>uploadApp. ret (uploadArn uploadApp)))" for t
    by (rule establishes_andThen[OF uploadPut_schedOK]) (simp add: establishes_ret_action)
  show ?thesis using False unfolding appStep_def
    by (simp add: establishes_andThen[OF ty up])
qed

lemma poolStep_schedOK: "establishes (schedOK P) (poolFrom w c) (poolStep w c)"
proof (rule establishesI)
  fix log r log' assume run: "poolStep w c log = (r, log')"
  show "\<exists>es. log' = log @ es \<and> (\<forall>e \<in> set es. schedOK P e)"
  proof (cases "cfg_devicePoolArn c = [] \<and> cfg_deviceArn c \<noteq> []")
    case True
    with run have "createPoolFromDevice w (cfg_deviceArn c) (cfg_deviceArn c) (cfg_projectArn c) log = (r, log')"
      by (simp add: poolStep_def)
    from establishes_log[OF createPoolFromDevice_schedOK this] show ?thesis .
  next
    case False
    with run have "log' = log" by (auto simp: poolStep_def fail_def ret_def split: if_splits)
    then show ?thesis by simp
  qed
next
  fix log x log' assume "poolStep w c log = (Inr x, log')"
  then show "poolFrom w c x"
    by (auto simp: poolStep_def poolFrom_def fail_def ret_def split: if_splits)
qed

lemma testPackageStep_schedOK: "establishes (schedOK P) (\<lambda>_. True) (testPackageStep fuel w c ty)"
proof (cases "cfg_testPackageFile c = []")
  case True
  then show ?thesis by (simp add: testPackageStep_def establishes_ret_action)
next
  case False
  have "establishes (schedOK P) (\<lambda>_. True)
      (andThen (uploadPut fuel w (cfg_testPackageFile c) ty (cfg_projectArn c) [])
         (\<lambda>u. ret (uploadArn u)))"
    by (rule establishes_andThen[OF uploadPut_schedOK]) (simp add: establishes_ret_action)
  then show ?thesis using False by (simp add: testPackageStep_def)
qed

lemma testSpecStep_schedOK: "establishes (schedOK P) (specFrom w c ty) (testSpecStep fuel w c ty)"
proof (cases "cfg_testSpecFile c = []")
  case True
  then show ?thesis by (simp add: testSpecStep_def specFrom_def establishes_ret_action)
next
  case False
  have "establishes (schedOK P) (specFrom w c ty)
      (andThen (uploadPut fuel w (cfg_testSpecFile c) ty (cfg_projectArn c) [])
         (\<lambda>u. ret (uploadArn u)))"
  proof (rule establishes_andThen[OF uploadPut_schedOK])
    fix u assume "\<exists>l. CreateUpload w l (uploadRequest (cfg_testSpecFile c) ty (cfg_projectArn c) []) = Inr u"
    then have "specFrom w c ty (uploadArn u)" using False by (auto simp: specFrom_def)
    then show "establishes (schedOK P) (specFrom w c ty) (ret (uploadArn u))"
      by (rule establishes_ret_action)
  qed
  then show ?thesis using False by (simp add: testSpecStep_def)
qed

lemma submitRun_schedOK: "P runReq \<Longrightarrow> establishes (schedOK P) (\<lambda>_. True) (submitRun w runReq)"
  unfolding establishes_def submitRun_def
  by (auto simp: schedOK_def split: sum.splits)

lemma waitRun_schedOK: "establishes (schedOK P) (\<lambda>_. True) (waitRun fuel w arn)"
  by (rule establishes_weaken[OF waitRun_emits]) (simp_all add: schedOK_def)

lemma runReport_schedOK: "establishes (schedOK P) (\<lambda>_. True) (runReport w arn)"
proof (rule establishes_weaken[OF runReport_establishes])
  fix e assume "reportEvent w arn e"
  then show "schedOK P e" by (cases e) (simp_all add: reportEvent_def schedOK_def)
qed simp

lemma scheduleRun_establishes:
  "establishes (schedOK (\<lambda>req. specAttached w c req \<and> poolUsed w c req)) (\<lambda>_. True)
     (scheduleRun fuel w c)"
  unfolding scheduleRun_def
proof (rule establishes_andThen[OF appStep_schedOK], rule establishes_andThen[OF poolStep_schedOK])
  let ?P = "\<lambda>req. specAttached w c req \<and> poolUsed w c req"
  fix appArnV :: string and devicePoolArnV :: string
  assume pool: "poolFrom w c devicePoolArnV"
  show "establishes (schedOK ?P) (\<lambda>_. True)
     (andThen (pureResult (lookupTestTypes (cfg_testType c))) (\<lambda>(testPackageType, testSpecType).
      andThen (testPackageStep fuel w c testPackageType) (\<lambda>testPackageArnV.
      andThen (testSpecStep fuel w c testSpecType) (\<lambda>testSpecArnV.
      andThen (submitRun w
                (runReqOf c appArnV devicePoolArnV
                   (runTestOf (cfg_testType c) testPackageArnV testSpecArnV))) (\<lambda>resp.
      andThen (waitRun fuel w (runArn resp)) (\<lambda>_.
      runReport w (runArn resp)))))))"
  proof (rule establishes_andThen[where R = "\<lambda>p. lookupTestTypes (cfg_testType c) = Inr p"])
    show "establishes (schedOK ?P) (\<lambda>p. lookupTestTypes (cfg_testType c) = Inr p)
            (pureResult (lookupTestTypes (cfg_testType c)))"
      by (rule establishes_pureResult) simp
  next
    fix p assume lk: "lookupTestTypes (cfg_testType c) = Inr p"
    obtain pk ty where p: "p = (pk, ty)" by (cases p)
    have "establishes (schedOK ?P) (\<lambda>_. True)
       (andThen (testPackageStep fuel w c pk) (\<lambda>testPackageArnV.
        andThen (testSpecStep fuel w c ty) (\<lambda>testSpecArnV.
        andThen (submitRun w
                  (runReqOf c appArnV devicePoolArnV
                     (runTestOf (cfg_testType c) testPackageArnV testSpecArnV))) (\<lambda>resp.
        andThen (waitRun fuel w (runArn resp)) (\<lambda>_.
        runReport w (runArn resp))))))"
    proof (rule establishes_andThen[OF testPackageStep_schedOK],
        rule establishes_andThen[OF testSpecStep_schedOK])
      fix testPackageArnV testSpecArnV :: string
      assume spec: "specFrom w c ty testSpecArnV"
      let ?req = "runReqOf c appArnV devicePoolArnV
                   (runTestOf (cfg_testType c) testPackageArnV testSpecArnV)"
      have "TestSpecArn (Test ?req) = (if testSpecArnV = [] then None else Some testSpecArnV)"
        by (simp add: runReqOf_def runTestOf_def Let_def)
      with lk p spec have "specAttached w c ?req"
        unfolding specAttached_def by blast
      moreover have "poolUsed w c ?req"
        using pool by (simp add: poolUsed_def runReqOf_def)
      ultimately have P: "?P ?req" by simp
      show "establishes (schedOK ?P) (\<lambda>_. True)
         (andThen (submitRun w ?req) (\<lambda>resp.
          andThen (waitRun fuel w (runArn resp)) (\<lambda>_. runReport w (runArn resp))))"
      proof (rule establishes_andThen[OF submitRun_schedOK[where P = ?P, OF P]])
        fix resp
        show "establishes (schedOK ?P) (\<lambda>_. True)
           (andThen (waitRun fuel w (runArn resp)) (\<lambda>_. runReport w (runArn resp)))"
          by (rule establishes_andThen[OF waitRun_schedOK]) (rule runReport_schedOK)
      qed
    qed
    then show "establishes (schedOK ?P) (\<lambda>_. True)
       (case p of (testPackageType, testSpecType) \<Rightarrow>
        andThen (testPackageStep fuel w c testPackageType) (\<lambda>testPackageArnV.
        andThen (testSpecStep fuel w c testSpecType) (\<lambda>testSpecArnV.
        andThen (submitRun w
                  (runReqOf c appArnV devicePoolArnV
                     (runTestOf (cfg_testType c) testPackageArnV testSpecArnV))) (\<lambda>resp.
        andThen (waitRun fuel w (runArn resp)) (\<lambda>_.
        runReport w (runArn resp))))))"
      by (simp add: p)
  qed
qed


subsection \<open>The example run\<close>

lemma farmWorld_uploadPut:
  "CHR ''/'' \<notin> set name \<Longrightarrow> name \<noteq> [] \<Longrightarrow>
   uploadPut (Suc 0) farmWorld name kind ''arn:project:1'' [] log
     = (Inr \<lparr> uploadArn = ''arn:upload:'' @ name, uploadUrl = ''https://bucket/key?signature'',
              uploadStatus = ''INITIALIZED'' \<rparr>,
        log @ uploadCalls name kind)"
  by (simp add: uploadPut_def farmWorld_def uploadRequest_def uploadCalls_def Let_def
      Base_component(2))

lemma farmWorld_appStep:
  assumes "cfg_appFile c = ''app.apk''" and "cfg_appType c = []"
    and "cfg_projectArn c = ''arn:project:1''"
  shows "appStep (Suc 0) farmWorld c log
     = (Inr ''arn:upload:app.apk'', log @ uploadCalls ''app.apk'' ''ANDROID_APP'')"
proof -
  have g: "guessAppType U ''app.apk'' = Inr ''ANDROID_APP''" for U
    by (simp add: guessAppType_def Ext_def ToLower_def isASCII_def toLowerByte_def)
  show ?thesis
    by (simp add: appStep_def andThen_def ret_def pureResult_def assms g farmWorld_uploadPut)
qed

lemma farmWorld_pool:
  "createPoolFromDevice farmWorld ''Pixel 4 - 10'' ''Pixel 4 - 10'' ''arn:project:1'' log
     = (Inr ''arn:pool:1'',
        log @ [Call_ListDevices,
               Call_CreateDevicePool (poolRequest ''Pixel 4 - 10'' ''arn:device:C'' ''arn:project:1'')])"
  by (simp add: createPoolFromDevice_def lookupDeviceArn_def failOnErr_def deviceMap_def
      deviceKey_def twoPixels_def farmWorld_def Let_def)

lemma farmWorld_submit:
  "submitRun farmWorld req log
     = (Inr \<lparr> runArn = ''arn:1:run:r'', runName = runReqName req, runStatus = ''SCHEDULING'' \<rparr>,
        log @ [Call_ScheduleRun req])"
  by (simp add: submitRun_def farmWorld_def)

lemma farmWorld_waitRun:
  "waitRun (Suc 0) farmWorld ''arn:1:run:r'' log = (Inr (), log @ [Call_GetRun ''arn:1:run:r''])"
  by (simp add: farmWorld_def)

lemma farmWorld_nightly: "scheduleRun 1 farmWorld nightly [] = (Inr (), nightlyLog)"
proof -
  have g: "guessAppType U ''app.apk'' = Inr ''ANDROID_APP''" for U
    by (simp add: guessAppType_def Ext_def ToLower_def isASCII_def toLowerByte_def)
  have t: "lookupTestTypes ''INSTRUMENTATION''
             = Inr (''INSTRUMENTATION_TEST_PACKAGE'', ''INSTRUMENTATION_TEST_SPEC'')"
    by (simp add: lookupTestTypes_def)
  show ?thesis
    by (simp add: scheduleRun_def appStep_def poolStep_def testPackageStep_def testSpecStep_def
        andThen_def ret_def pureResult_def nightly_def g t farmWorld_uploadPut farmWorld_pool
        farmWorld_submit farmWorld_waitRun farmWorld_runReport nightlyLog_def nightlyRequest_def
        runReqOf_def runTestOf_def del: waitRun.simps)
qed

lemma farmWorld_nightlySpec: "scheduleRun 1 farmWorld nightlySpec [] = (Inr (), nightlySpecLog)"
proof -
  have g: "guessAppType U ''app.apk'' = Inr ''ANDROID_APP''" for U
    by (simp add: guessAppType_def Ext_def ToLower_def isASCII_def toLowerByte_def)
  have t: "lookupTestTypes ''INSTRUMENTATION''
             = Inr (''INSTRUMENTATION_TEST_PACKAGE'', ''INSTRUMENTATION_TEST_SPEC'')"
    by (simp add: lookupTestTypes_def)
  show ?thesis
    by (simp add: scheduleRun_def appStep_def poolStep_def testPackageStep_def testSpecStep_def
        andThen_def ret_def pureResult_def nightly_def nightlySpec_def g t farmWorld_uploadPut
        farmWorld_pool farmWorld_submit farmWorld_waitRun farmWorld_runReport nightlySpecLog_def
        nightlyRequest_def runReqOf_def runTestOf_def del: waitRun.simps)
qed


subsection \<open>Lower-casing and the extension\<close>







section \<open>The claims\<close>

text \<open>
  C1, as the code has it. When \<open>downloadArtifactsForSuite\<close> completes for a suite, the
  downloads it has made are those of the artifacts, of each category's listing in
  turn, whose identifier starts with the suite's identifier after every \<open>:suite:\<close> in
  it is replaced by \<open>:artifact:\<close>. When \<open>:suite:\<close> occurs neither in \<open>pre:suite\<close> nor in
  \<open>q\<close>, the suite \<open>pre:suite:q\<close> is given the artifact \<open>pre:artifact:tail\<close> exactly when
  \<open>q\<close> is the start of \<open>tail\<close>: so it is given the artifacts of \<open>pre:artifact:q\<close>, and a
  suite whose \<open>q\<close> is not a start of \<open>tail\<close> is not given the artifact.
\<close>

theorem C1_attribution_by_prefix:
  "(downloadArtifactsForSuite w dirPrefix allArtifacts suite log = (Inr (), log')
      \<longrightarrow> emitted log log' = suitePlan dirPrefix allArtifacts suite)
   \<and> (\<not> sublist '':suite:'' (pre @ '':suite'') \<and> \<not> sublist '':suite:'' q
      \<longrightarrow> (prefix (artifactPrefixOf (pre @ '':suite:'' @ q)) (pre @ '':artifact:'' @ tail)
            \<longleftrightarrow> prefix q tail))"
proof (intro conjI impI)
  assume "downloadArtifactsForSuite w dirPrefix allArtifacts suite log = (Inr (), log')"
  from follows_done[OF downloadArtifactsForSuite_follows this]
  show "emitted log log' = suitePlan dirPrefix allArtifacts suite"
    by (simp add: emitted_def)
next
  assume "\<not> sublist '':suite:'' (pre @ '':suite'') \<and> \<not> sublist '':suite:'' q"
  then have "artifactPrefixOf (pre @ '':suite:'' @ q) = pre @ '':artifact:'' @ q"
    using artifactPrefixOf_marker[of pre q] by blast
  then show "prefix (artifactPrefixOf (pre @ '':suite:'' @ q)) (pre @ '':artifact:'' @ tail)
            \<longleftrightarrow> prefix q tail"
    by simp
qed

theorem C1_attribution_by_prefix_witness:
  "downloadArtifactsForSuite downloadWorld ''report/j/s''
      (onlyLogs [logArtifact ''p:artifact:12/0'', logArtifact ''p:artifact:7/0''])
      \<lparr> suiteArn = ''p:suite:12'', suiteName = ''s'' \<rparr> []
     = (Inr (), [Call_Download ''report/j/s/0_Logcat.txt'' ''https://files/p:artifact:12/0''])
   \<and> suitePlan ''report/j/s''
        (onlyLogs [logArtifact ''p:artifact:12/0'', logArtifact ''p:artifact:7/0''])
        \<lparr> suiteArn = ''p:suite:12'', suiteName = ''s'' \<rparr>
     = [Call_Download ''report/j/s/0_Logcat.txt'' ''https://files/p:artifact:12/0'']
   \<and> prefix (artifactPrefixOf ''p:suite:12'') ''p:artifact:12/0''
   \<and> \<not> prefix (artifactPrefixOf ''p:suite:12'') ''p:artifact:7/0''"
proof -
  let ?all = "onlyLogs [logArtifact ''p:artifact:12/0'', logArtifact ''p:artifact:7/0'']"
  let ?suite = "\<lparr> suiteArn = ''p:suite:12'', suiteName = ''s'' \<rparr>"
  let ?dl = "[Call_Download ''report/j/s/0_Logcat.txt'' ''https://files/p:artifact:12/0'']"
  have run: "downloadArtifactsForSuite downloadWorld ''report/j/s'' ?all ?suite [] = (Inr (), ?dl)"
    by (simp add: downloadArtifactsForSuite_def artifactPrefixOf_def artifactTypes_def
        onlyLogs_def logArtifact_def downloadArtifact_def downloadWorld_def deadWorld_def
        artifactFileName_def char_of_def bit_Suc_0_iff)
  from C1_attribution_by_prefix[of downloadWorld "''report/j/s''" ?all ?suite "[]" ?dl] run
  have plan: "suitePlan ''report/j/s'' ?all ?suite = ?dl"
    by (simp add: emitted_def)
  have free: "\<not> sublist '':suite:'' (''p'' @ '':suite'') \<and> \<not> sublist '':suite:'' ''12''"
    by (simp add: sublist_Cons_right)
  from C1_attribution_by_prefix[of _ _ _ _ _ _ "''p''" "''12''" "''12/0''"] free
  have yes: "prefix (artifactPrefixOf (''p'' @ '':suite:'' @ ''12'')) (''p'' @ '':artifact:'' @ ''12/0'')"
    by simp
  from C1_attribution_by_prefix[of _ _ _ _ _ _ "''p''" "''12''" "''7/0''"] free
  have no: "\<not> prefix (artifactPrefixOf (''p'' @ '':suite:'' @ ''12'')) (''p'' @ '':artifact:'' @ ''7/0'')"
    by simp
  from run plan yes no show ?thesis by simp
qed

text \<open>
  C1 as stated fails twice. The artifact \<open>a:suite:b:artifact:1\<close> has the form
  \<open>prefix:artifact:XYZ\<close> for the suite \<open>a:suite:b:suite:1\<close>, but the replacer rewrites
  both markers of the suite's identifier, and the artifact is not given to the suite.
  The artifact \<open>p:artifact:12\<close> is given to the suite \<open>p:suite:1\<close>, whose identifier
  gives a shorter prefix of it, as well as to \<open>p:suite:12\<close>.
\<close>

theorem C1_attribution_counterexample:
  "downloadArtifactsForSuite downloadWorld ''report/j/s''
      (onlyLogs [logArtifact ''a:suite:b:artifact:1''])
      \<lparr> suiteArn = ''a:suite:b:suite:1'', suiteName = ''s'' \<rparr> []
     = (Inr (), [])
   \<and> downloadArtifactsForSuite downloadWorld ''report/j/s''
      (onlyLogs [logArtifact ''p:artifact:12''])
      \<lparr> suiteArn = ''p:suite:1'', suiteName = ''s'' \<rparr> []
     = (Inr (), [Call_Download ''report/j/s/0_Logcat.txt'' ''https://files/p:artifact:12''])
   \<and> downloadArtifactsForSuite downloadWorld ''report/j/s''
      (onlyLogs [logArtifact ''p:artifact:12''])
      \<lparr> suiteArn = ''p:suite:12'', suiteName = ''s'' \<rparr> []
     = (Inr (), [Call_Download ''report/j/s/0_Logcat.txt'' ''https://files/p:artifact:12''])"
  by (simp add: downloadArtifactsForSuite_def artifactPrefixOf_def artifactTypes_def
        onlyLogs_def logArtifact_def downloadArtifact_def downloadWorld_def deadWorld_def
        artifactFileName_def char_of_def bit_Suc_0_iff)

text \<open>
  C2. When the service answers the status checks of a polling loop with a sequence of
  statuses \<open>st\<close> whose first success value (SUCCEEDED for an upload, COMPLETED for a run)
  is the answer to check number \<open>N = n + 1\<close>, the loop makes exactly \<open>N\<close> status checks
  and is left with success (given at least \<open>N\<close> turns). When the sequence never holds
  the success value, whatever else it reports (FAILED, say), the loop is still polling
  after any number of turns, having made that many checks: only the success value
  ends it.
\<close>

theorem C2_polling_exit:
  fixes st :: "nat \<Rightarrow> string"
  shows
  "((\<forall>i\<le>n. uploadAnswers w log arn i (st i)) \<and> (\<forall>i<n. st i \<noteq> ''SUCCEEDED'')
      \<and> st n = ''SUCCEEDED'' \<and> n < fuel
     \<longrightarrow> waitUpload fuel w arn log = (Inr (), log @ replicate (Suc n) (Call_GetUpload arn)))
   \<and> ((\<forall>i\<le>n. runAnswers w log arn i (st i)) \<and> (\<forall>i<n. st i \<noteq> ''COMPLETED'')
      \<and> st n = ''COMPLETED'' \<and> n < fuel
     \<longrightarrow> waitRun fuel w arn log = (Inr (), log @ replicate (Suc n) (Call_GetRun arn)))
   \<and> ((\<forall>i. uploadAnswers w log arn i (st i)) \<and> (\<forall>i. st i \<noteq> ''SUCCEEDED'')
     \<longrightarrow> waitUpload fuel w arn log = (Inl StillPolling, log @ replicate fuel (Call_GetUpload arn)))
   \<and> ((\<forall>i. runAnswers w log arn i (st i)) \<and> (\<forall>i. st i \<noteq> ''COMPLETED'')
     \<longrightarrow> waitRun fuel w arn log = (Inl StillPolling, log @ replicate fuel (Call_GetRun arn)))"
proof (intro conjI impI)
  assume h: "(\<forall>i\<le>n. uploadAnswers w log arn i (st i)) \<and> (\<forall>i<n. st i \<noteq> ''SUCCEEDED'')
      \<and> st n = ''SUCCEEDED'' \<and> n < fuel"
  have "\<forall>i<n. \<exists>u. GetUpload w (log @ replicate i (Call_GetUpload arn)) arn = Inr u
              \<and> uploadStatus u \<noteq> ''SUCCEEDED''"
    using h by (metis uploadAnswers_iff less_imp_le)
  moreover have "\<exists>u. GetUpload w (log @ replicate n (Call_GetUpload arn)) arn = Inr u
              \<and> uploadStatus u = ''SUCCEEDED''"
    using h by (metis uploadAnswers_iff order_refl)
  ultimately show "waitUpload fuel w arn log = (Inr (), log @ replicate (Suc n) (Call_GetUpload arn))"
    using h by (intro waitUpload_reaches) auto
next
  assume h: "(\<forall>i\<le>n. runAnswers w log arn i (st i)) \<and> (\<forall>i<n. st i \<noteq> ''COMPLETED'')
      \<and> st n = ''COMPLETED'' \<and> n < fuel"
  have "\<forall>i<n. \<exists>u. GetRun w (log @ replicate i (Call_GetRun arn)) arn = Inr u
              \<and> runStatus u \<noteq> ''COMPLETED''"
    using h by (metis runAnswers_iff less_imp_le)
  moreover have "\<exists>u. GetRun w (log @ replicate n (Call_GetRun arn)) arn = Inr u
              \<and> runStatus u = ''COMPLETED''"
    using h by (metis runAnswers_iff order_refl)
  ultimately show "waitRun fuel w arn log = (Inr (), log @ replicate (Suc n) (Call_GetRun arn))"
    using h by (intro waitRun_reaches) auto
next
  assume h: "(\<forall>i. uploadAnswers w log arn i (st i)) \<and> (\<forall>i. st i \<noteq> ''SUCCEEDED'')"
  have "\<forall>i. \<exists>u. GetUpload w (log @ replicate i (Call_GetUpload arn)) arn = Inr u
              \<and> uploadStatus u \<noteq> ''SUCCEEDED''"
    using h by (metis uploadAnswers_iff)
  then show "waitUpload fuel w arn log = (Inl StillPolling, log @ replicate fuel (Call_GetUpload arn))"
    by (rule waitUpload_never)
next
  assume h: "(\<forall>i. runAnswers w log arn i (st i)) \<and> (\<forall>i. st i \<noteq> ''COMPLETED'')"
  have "\<forall>i. \<exists>u. GetRun w (log @ replicate i (Call_GetRun arn)) arn = Inr u
              \<and> runStatus u \<noteq> ''COMPLETED''"
    using h by (metis runAnswers_iff)
  then show "waitRun fuel w arn log = (Inl StillPolling, log @ replicate fuel (Call_GetRun arn))"
    by (rule waitRun_never)
qed

theorem C2_polling_exit_witness:
  "waitUpload 10 (pollWorld ''PROCESSING'' ''SUCCEEDED'') ''upload-1'' []
     = (Inr (), replicate 3 (Call_GetUpload ''upload-1''))
   \<and> waitRun 10 (pollWorld ''RUNNING'' ''COMPLETED'') ''run-1'' []
     = (Inr (), replicate 3 (Call_GetRun ''run-1''))
   \<and> waitUpload 10 (pollWorld ''PROCESSING'' ''FAILED'') ''upload-1'' []
     = (Inl StillPolling, replicate 10 (Call_GetUpload ''upload-1''))
   \<and> waitRun 10 (pollWorld ''RUNNING'' ''FAILED'') ''run-1'' []
     = (Inl StillPolling, replicate 10 (Call_GetRun ''run-1''))"
proof -
  note ev = uploadAnswers_def runAnswers_def pollWorld_def deadWorld_def statusAfter_def
  have "waitUpload 10 (pollWorld ''PROCESSING'' ''SUCCEEDED'') ''upload-1'' []
     = (Inr (), replicate 3 (Call_GetUpload ''upload-1''))"
    using C2_polling_exit[of 2 "pollWorld ''PROCESSING'' ''SUCCEEDED''" "[]" "''upload-1''"
        "statusAfter 2 ''PROCESSING'' ''SUCCEEDED''" 10]
    by (simp add: ev numeral_3_eq_3)
  moreover have "waitRun 10 (pollWorld ''RUNNING'' ''COMPLETED'') ''run-1'' []
     = (Inr (), replicate 3 (Call_GetRun ''run-1''))"
    using C2_polling_exit[of 2 "pollWorld ''RUNNING'' ''COMPLETED''" "[]" "''run-1''"
        "statusAfter 2 ''RUNNING'' ''COMPLETED''" 10]
    by (simp add: ev numeral_3_eq_3)
  moreover have "waitUpload 10 (pollWorld ''PROCESSING'' ''FAILED'') ''upload-1'' []
     = (Inl StillPolling, replicate 10 (Call_GetUpload ''upload-1''))"
    using C2_polling_exit[of 2 "pollWorld ''PROCESSING'' ''FAILED''" "[]" "''upload-1''"
        "statusAfter 2 ''PROCESSING'' ''FAILED''" 10]
    by (simp add: ev)
  moreover have "waitRun 10 (pollWorld ''RUNNING'' ''FAILED'') ''run-1'' []
     = (Inl StillPolling, replicate 10 (Call_GetRun ''run-1''))"
    using C2_polling_exit[of 2 "pollWorld ''RUNNING'' ''FAILED''" "[]" "''run-1''"
        "statusAfter 2 ''RUNNING'' ''FAILED''" 10]
    by (simp add: ev)
  ultimately show ?thesis by blast
qed

text \<open>
  C3, as the code has it. Let the device listing be \<open>D\<close>. When some device of \<open>D\<close> has
  the composite key \<open>k\<close> and the last such device has a non-empty identifier,
  \<open>createPoolFromDevice\<close> asks for a pool with the single rule (Arn, IN, the identifier
  of that last device between \<open>["\<close> and \<open>"]\<close>) and succeeds exactly when the service
  accepts the request; otherwise no pool is asked for and the process ends.
\<close>

theorem C3_pool_from_device:
  assumes "ListDevices w log = Inr D"
  shows
  "(filter (\<lambda>m. deviceKey m = k) D \<noteq> [] \<and> devArn (last (filter (\<lambda>m. deviceKey m = k) D)) \<noteq> []
     \<longrightarrow> createPoolFromDevice w poolNm k proj log
           = ((case CreateDevicePool w (log @ [Call_ListDevices])
                      (poolRequest poolNm (devArn (last (filter (\<lambda>m. deviceKey m = k) D))) proj) of
                 Inl e \<Rightarrow> Inl (Error e) | Inr poolArn \<Rightarrow> Inr poolArn),
              log @ [Call_ListDevices,
                     Call_CreateDevicePool
                       (poolRequest poolNm (devArn (last (filter (\<lambda>m. deviceKey m = k) D))) proj)])
         \<and> Rules (poolRequest poolNm (devArn (last (filter (\<lambda>m. deviceKey m = k) D))) proj)
           = [\<lparr> Attribute = ''Arn'', Operator = ''IN'',
                Value = ''['' @ [CHR 0x22] @ devArn (last (filter (\<lambda>m. deviceKey m = k) D))
                          @ [CHR 0x22] @ '']'' \<rparr>])
   \<and> (filter (\<lambda>m. deviceKey m = k) D = [] \<or> devArn (last (filter (\<lambda>m. deviceKey m = k) D)) = []
     \<longrightarrow> createPoolFromDevice w poolNm k proj log
           = (Inl (Fatal (''failed to find a device with name '' @ k)), log @ [Call_ListDevices]))"
  using lookupDeviceArn_listed[OF assms, of k]
  by (auto simp: createPoolFromDevice_def poolRequest_def Let_def split: sum.splits)

theorem C3_pool_from_device_witness:
  "createPoolFromDevice poolWorld ''Pixel 4 - 10'' ''Pixel 4 - 10'' ''arn:project:1'' []
     = (Inr ''arn:pool:1'',
        [Call_ListDevices,
         Call_CreateDevicePool (poolRequest ''Pixel 4 - 10'' ''arn:device:C'' ''arn:project:1'')])
   \<and> Rules (poolRequest ''Pixel 4 - 10'' ''arn:device:C'' ''arn:project:1'')
     = [\<lparr> Attribute = ''Arn'', Operator = ''IN'',
          Value = ''['' @ [CHR 0x22] @ ''arn:device:C'' @ [CHR 0x22] @ '']'' \<rparr>]
   \<and> createPoolFromDevice poolWorld ''Pixel 9 - 15'' ''Pixel 9 - 15'' ''arn:project:1'' []
     = (Inl (Fatal (''failed to find a device with name '' @ ''Pixel 9 - 15'')), [Call_ListDevices])"
proof -
  have listed: "ListDevices poolWorld [] = Inr twoPixels"
    by (simp add: poolWorld_def deadWorld_def)
  have f4: "filter (\<lambda>m. deviceKey m = ''Pixel 4 - 10'') twoPixels
              = [\<lparr> devName = ''Pixel 4'', devOs = ''10'', devArn = ''arn:device:C'' \<rparr>]"
    and f9: "filter (\<lambda>m. deviceKey m = ''Pixel 9 - 15'') twoPixels = []"
    by (simp_all add: twoPixels_def deviceKey_def)
  have cp: "CreateDevicePool poolWorld l req = Inr ''arn:pool:1''" for l req
    by (simp add: poolWorld_def deadWorld_def)
  from C3_pool_from_device[OF listed, of "''Pixel 4 - 10''" "''Pixel 4 - 10''" "''arn:project:1''"]
  have a: "createPoolFromDevice poolWorld ''Pixel 4 - 10'' ''Pixel 4 - 10'' ''arn:project:1'' []
     = (Inr ''arn:pool:1'',
        [Call_ListDevices,
         Call_CreateDevicePool (poolRequest ''Pixel 4 - 10'' ''arn:device:C'' ''arn:project:1'')])
   \<and> Rules (poolRequest ''Pixel 4 - 10'' ''arn:device:C'' ''arn:project:1'')
     = [\<lparr> Attribute = ''Arn'', Operator = ''IN'',
          Value = ''['' @ [CHR 0x22] @ ''arn:device:C'' @ [CHR 0x22] @ '']'' \<rparr>]"
    by (simp add: f4 cp)
  from C3_pool_from_device[OF listed, of "''Pixel 9 - 15''" "''Pixel 9 - 15''" "''arn:project:1''"]
  have b: "createPoolFromDevice poolWorld ''Pixel 9 - 15'' ''Pixel 9 - 15'' ''arn:project:1'' []
     = (Inl (Fatal (''failed to find a device with name '' @ ''Pixel 9 - 15'')), [Call_ListDevices])"
    by (simp add: f9)
  from a b show ?thesis by blast
qed

text \<open>
  C3 as stated fails on a listing in which two devices have the key \<open>Pixel 5 - 11\<close>:
  not exactly one device has the key, and the pool is resolved all the same, from the
  device listed last.
\<close>

theorem C3_pool_from_device_counterexample:
  "map deviceKey twoPixels = [''Pixel 5 - 11'', ''Pixel 5 - 11'', ''Pixel 4 - 10'']
   \<and> ListDevices poolWorld [] = Inr twoPixels
   \<and> createPoolFromDevice poolWorld ''Pixel 5 - 11'' ''Pixel 5 - 11'' ''arn:project:1'' []
     = (Inr ''arn:pool:1'',
        [Call_ListDevices,
         Call_CreateDevicePool
           \<lparr> poolName = ''Pixel 5 - 11'', poolDescription = ''autocreated pool Pixel 5 - 11'',
             poolProjectArn = ''arn:project:1'',
             Rules = [\<lparr> Attribute = ''Arn'', Operator = ''IN'',
                        Value = ''['' @ [CHR 0x22] @ ''arn:device:B'' @ [CHR 0x22] @ '']'' \<rparr>] \<rparr>])"
  by (simp add: createPoolFromDevice_def lookupDeviceArn_def failOnErr_def deviceMap_def
      deviceKey_def twoPixels_def poolWorld_def deadWorld_def poolRequest_def Let_def)

text \<open>
  C4. The test-type mapper is a static table: \<open>lookupTestTypes\<close> takes the name only
  and returns, for every name of the table, the pair the table holds (the names of the
  table are distinct, so there is one pair per name); BUILTIN_FUZZ and BUILTIN_EXPLORER
  give the package kind NONE and the empty spec kind; every name that is not in the
  table gives the error whose message names BUILTIN_FUZZ and BUILTIN_EXPLORER.
\<close>

theorem C4_lookupTestTypes_table:
  "lookupTestTypes t
     = (case map_of testTypeTable t of Some p \<Rightarrow> Inr p | None \<Rightarrow> Inl (Error unknownTestType))
   \<and> distinct (map fst testTypeTable)
   \<and> (\<forall>n \<in> fst ` set testTypeTable. \<exists>p. lookupTestTypes n = Inr p \<and> (n, p) \<in> set testTypeTable)
   \<and> lookupTestTypes ''BUILTIN_FUZZ'' = Inr (''NONE'', [])
   \<and> lookupTestTypes ''BUILTIN_EXPLORER'' = Inr (''NONE'', [])
   \<and> (t \<notin> fst ` set testTypeTable \<longrightarrow> lookupTestTypes t = Inl (Error unknownTestType))
   \<and> sublist ''BUILTIN_FUZZ'' unknownTestType
   \<and> sublist ''BUILTIN_EXPLORER'' unknownTestType"
proof -
  have tab: "lookupTestTypes n
     = (case map_of testTypeTable n of Some p \<Rightarrow> Inr p | None \<Rightarrow> Inl (Error unknownTestType))" for n
    unfolding lookupTestTypes_def testTypeTable_def unknownTestType_def by simp
  have dist: "distinct (map fst testTypeTable)"
    unfolding testTypeTable_def by simp
  have known: "\<exists>p. lookupTestTypes n = Inr p \<and> (n, p) \<in> set testTypeTable"
    if "n \<in> fst ` set testTypeTable" for n
  proof -
    from that obtain p where p: "(n, p) \<in> set testTypeTable" by auto
    with dist have "map_of testTypeTable n = Some p" by simp
    with p show ?thesis by (simp add: tab)
  qed
  have unknown: "lookupTestTypes t = Inl (Error unknownTestType)"
    if "t \<notin> fst ` set testTypeTable"
    using that by (simp add: tab map_of_eq_None_iff[THEN iffD2])
  have fuzz: "lookupTestTypes ''BUILTIN_FUZZ'' = Inr (''NONE'', [])"
    and expl: "lookupTestTypes ''BUILTIN_EXPLORER'' = Inr (''NONE'', [])"
    by (simp_all add: lookupTestTypes_def)
  have m1: "sublist ''BUILTIN_FUZZ'' unknownTestType"
    and m2: "sublist ''BUILTIN_EXPLORER'' unknownTestType"
    unfolding unknownTestType_def by (simp_all add: sublist_Cons_right)
  show ?thesis using tab known unknown fuzz expl m1 m2 dist by blast
qed

theorem C4_lookupTestTypes_table_witness:
  "''XCTEST'' \<in> fst ` set testTypeTable
   \<and> lookupTestTypes ''XCTEST'' = Inr (''XCTEST_TEST_PACKAGE'', ''XCTEST_UI_TEST_SPEC'')
   \<and> ''JUNIT5'' \<notin> fst ` set testTypeTable
   \<and> lookupTestTypes ''JUNIT5'' = Inl (Error unknownTestType)"
proof -
  have a: "''XCTEST'' \<in> fst ` set testTypeTable" and b: "''JUNIT5'' \<notin> fst ` set testTypeTable"
    by (simp_all add: testTypeTable_def)
  have c: "map_of testTypeTable ''XCTEST'' = Some (''XCTEST_TEST_PACKAGE'', ''XCTEST_UI_TEST_SPEC'')"
    by (simp add: testTypeTable_def)
  from C4_lookupTestTypes_table[of "''XCTEST''"] c
  have d: "lookupTestTypes ''XCTEST'' = Inr (''XCTEST_TEST_PACKAGE'', ''XCTEST_UI_TEST_SPEC'')"
    by simp
  from C4_lookupTestTypes_table[of "''JUNIT5''"] b
  have e: "lookupTestTypes ''JUNIT5'' = Inl (Error unknownTestType)"
    by blast
  from a b d e show ?thesis by blast
qed

text \<open>
  C5. Every download that \<open>runReport\<close> makes has a destination path of the shape
  \<open>report/<job-name> - <device-model> - <device-os>/<suite-name>/<index>_<artifact-name>.<extension>\<close>,
  for a job listed for the run, a suite listed for that job and an artifact of one
  category's listing; the index is the position of the artifact among the artifacts of
  that listing that match the suite, so it starts at 0 for every suite and category.
\<close>

theorem C5_report_paths:
  assumes "runReport w arn log = (r, log')"
    and "Call_Download f u \<in> set (emitted log log')"
  shows "\<exists>job suite t al index.
        (\<exists>l jobs. ListJobs w l arn = Inr jobs \<and> job \<in> set jobs)
        \<and> (\<exists>l suites. ListSuites w l (jobArn job) = Inr suites \<and> suite \<in> set suites)
        \<and> t \<in> set artifactTypes
        \<and> (\<exists>l. ListArtifacts w l arn t = Inr al)
        \<and> index < length (matching (artifactPrefixOf (suiteArn suite)) al)
        \<and> f = ''report/'' @ jobName job @ '' - '' @ jobDeviceModel job @ '' - '' @ jobDeviceOs job
              @ ''/'' @ suiteName suite
              @ ''/'' @ itoa index
              @ ''_'' @ artName (matching (artifactPrefixOf (suiteArn suite)) al ! index)
              @ ''.'' @ artExtension (matching (artifactPrefixOf (suiteArn suite)) al ! index)
        \<and> u = artUrl (matching (artifactPrefixOf (suiteArn suite)) al ! index)"
proof -
  from establishes_emitted[OF runReport_establishes assms]
  have "pathShape w arn f u" by (simp add: reportEvent_def)
  then show ?thesis unfolding pathShape_def reportPath_def .
qed

theorem C5_report_paths_witness:
  "runReport farmWorld ''arn:1:run:r'' [] = (Inr (), farmReport)
   \<and> Call_Download ''report/Pixel 5 - Google Pixel 5 - 11/Tests/1_Logcat.txt''
        ''https://files/arn:1:artifact:r/0/1/1'' \<in> set (emitted [] farmReport)
   \<and> (\<exists>job suite t al index.
        (\<exists>l jobs. ListJobs farmWorld l ''arn:1:run:r'' = Inr jobs \<and> job \<in> set jobs)
        \<and> (\<exists>l suites. ListSuites farmWorld l (jobArn job) = Inr suites \<and> suite \<in> set suites)
        \<and> t \<in> set artifactTypes
        \<and> (\<exists>l. ListArtifacts farmWorld l ''arn:1:run:r'' t = Inr al)
        \<and> index < length (matching (artifactPrefixOf (suiteArn suite)) al)
        \<and> ''report/Pixel 5 - Google Pixel 5 - 11/Tests/1_Logcat.txt''
            = ''report/'' @ jobName job @ '' - '' @ jobDeviceModel job @ '' - '' @ jobDeviceOs job
              @ ''/'' @ suiteName suite
              @ ''/'' @ itoa index
              @ ''_'' @ artName (matching (artifactPrefixOf (suiteArn suite)) al ! index)
              @ ''.'' @ artExtension (matching (artifactPrefixOf (suiteArn suite)) al ! index)
        \<and> ''https://files/arn:1:artifact:r/0/1/1''
            = artUrl (matching (artifactPrefixOf (suiteArn suite)) al ! index))"
proof -
  have run: "runReport farmWorld ''arn:1:run:r'' [] = (Inr (), farmReport)"
    using farmWorld_runReport[of "[]"] by simp
  have mem: "Call_Download ''report/Pixel 5 - Google Pixel 5 - 11/Tests/1_Logcat.txt''
        ''https://files/arn:1:artifact:r/0/1/1'' \<in> set (emitted [] farmReport)"
    by (simp add: emitted_def farmReport_def)
  from run mem C5_report_paths[OF run mem] show ?thesis by blast
qed

text \<open>
  C6. For every configuration, every schedule request that \<open>scheduleRun\<close> submits
  carries the test-spec identifier exactly when that identifier is non-empty, where
  the identifier is the one supplied when no test-spec file is given, and otherwise
  the identifier of the upload created for the test-spec file (of the test-spec kind
  of the test type); when it is empty the request has no test-spec field.
\<close>

theorem C6_test_spec_attached:
  assumes "scheduleRun fuel w c log = (r, log')"
    and "Call_ScheduleRun req \<in> set (emitted log log')"
  shows "\<exists>testPackageType testSpecType v.
        lookupTestTypes (cfg_testType c) = Inr (testPackageType, testSpecType)
        \<and> (if cfg_testSpecFile c = [] then v = cfg_testSpecArn c
            else (\<exists>l u. CreateUpload w l
                     (uploadRequest (cfg_testSpecFile c) testSpecType (cfg_projectArn c) []) = Inr u
                   \<and> v = uploadArn u))
        \<and> TestSpecArn (Test req) = (if v = [] then None else Some v)"
proof -
  from establishes_emitted[OF scheduleRun_establishes assms]
  have "specAttached w c req" by (simp add: schedOK_def)
  then show ?thesis unfolding specAttached_def specFrom_def .
qed

theorem C6_test_spec_attached_witness:
  "scheduleRun 1 farmWorld nightly [] = (Inr (), nightlyLog)
   \<and> Call_ScheduleRun (nightlyRequest None) \<in> set (emitted [] nightlyLog)
   \<and> cfg_testSpecFile nightly = [] \<and> cfg_testSpecArn nightly = []
   \<and> TestSpecArn (Test (nightlyRequest None)) = None
   \<and> scheduleRun 1 farmWorld nightlySpec [] = (Inr (), nightlySpecLog)
   \<and> Call_ScheduleRun (nightlyRequest (Some ''arn:upload:spec.yml'')) \<in> set (emitted [] nightlySpecLog)
   \<and> (\<exists>testPackageType testSpecType v.
        lookupTestTypes (cfg_testType nightlySpec) = Inr (testPackageType, testSpecType)
        \<and> (if cfg_testSpecFile nightlySpec = [] then v = cfg_testSpecArn nightlySpec
            else (\<exists>l u. CreateUpload farmWorld l
                     (uploadRequest (cfg_testSpecFile nightlySpec) testSpecType
                        (cfg_projectArn nightlySpec) []) = Inr u
                   \<and> v = uploadArn u))
        \<and> TestSpecArn (Test (nightlyRequest (Some ''arn:upload:spec.yml'')))
            = (if v = [] then None else Some v))"
proof -
  have m1: "Call_ScheduleRun (nightlyRequest None) \<in> set (emitted [] nightlyLog)"
    by (simp add: emitted_def nightlyLog_def)
  have m2: "Call_ScheduleRun (nightlyRequest (Some ''arn:upload:spec.yml'')) \<in> set (emitted [] nightlySpecLog)"
    by (simp add: emitted_def nightlySpecLog_def)
  have c: "cfg_testSpecFile nightly = [] \<and> cfg_testSpecArn nightly = []"
    by (simp add: nightly_def)
  from C6_test_spec_attached[OF farmWorld_nightly m1] c
  have a: "TestSpecArn (Test (nightlyRequest None)) = None" by auto
  note b = C6_test_spec_attached[OF farmWorld_nightlySpec m2]
  from farmWorld_nightly farmWorld_nightlySpec m1 m2 c a b show ?thesis by blast
qed

text \<open>
  C7, as the code has it. Take a configuration without a device-pool identifier. When
  it has no device identifier either, \<open>scheduleRun\<close> submits no schedule request and
  never succeeds: when the app-file step (guessing the kind of the app file and
  uploading it, when an app file is given) fails, \<open>scheduleRun\<close> ends with that very
  failure and the log of that step; when the step succeeds, so at once when no app
  file is given, it returns the insufficient-input error. When it has a device
  identifier, a failure of the app-file step ends \<open>scheduleRun\<close> in the same way, the
  pool of every schedule request submitted is one that \<open>createPoolFromDevice\<close>
  returned for that device, and a failure of \<open>createPoolFromDevice\<close> after the
  app-file step ends \<open>scheduleRun\<close> with that failure.
\<close>

theorem C7_pool_or_device:
  assumes "cfg_devicePoolArn c = []"
    and "scheduleRun fuel w c log = (r, log')"
  shows
  "(cfg_deviceArn c = [] \<longrightarrow>
      (\<forall>req. Call_ScheduleRun req \<notin> set (emitted log log'))
      \<and> (\<exists>e. r = Inl e)
      \<and> (\<forall>e l1. appStep fuel w c log = (Inl e, l1) \<longrightarrow> r = Inl e \<and> log' = l1)
      \<and> (\<forall>a l1. appStep fuel w c log = (Inr a, l1)
            \<longrightarrow> r = Inl (Error ''we need a device/devicepool to run on'') \<and> log' = l1)
      \<and> (cfg_appFile c = []
            \<longrightarrow> r = Inl (Error ''we need a device/devicepool to run on'') \<and> log' = log))
   \<and> (cfg_deviceArn c \<noteq> [] \<longrightarrow>
      (\<forall>req. Call_ScheduleRun req \<in> set (emitted log log')
         \<longrightarrow> (\<exists>l l'. createPoolFromDevice w (cfg_deviceArn c) (cfg_deviceArn c) (cfg_projectArn c) l
                       = (Inr (DevicePoolArn req), l')))
      \<and> (\<forall>e l1. appStep fuel w c log = (Inl e, l1) \<longrightarrow> r = Inl e \<and> log' = l1)
      \<and> (\<forall>a l1 e l2. appStep fuel w c log = (Inr a, l1)
            \<and> createPoolFromDevice w (cfg_deviceArn c) (cfg_deviceArn c) (cfg_projectArn c) l1
                = (Inl e, l2)
            \<longrightarrow> r = Inl e \<and> log' = l2))"
proof -
  have app_fails: "r = Inl e \<and> log' = l1" if "appStep fuel w c log = (Inl e, l1)" for e l1
    using that assms(2) by (simp add: scheduleRun_def andThen_def)
  have no_request: "Call_ScheduleRun req \<notin> set (emitted log log')" if "cfg_deviceArn c = []" for req
  proof
    assume "Call_ScheduleRun req \<in> set (emitted log log')"
    from establishes_emitted[OF scheduleRun_establishes assms(2) this]
    have "poolUsed w c req" by (simp add: schedOK_def)
    with assms(1) that show False by (simp add: poolUsed_def poolFrom_def)
  qed
  have insufficient: "r = Inl (Error ''we need a device/devicepool to run on'') \<and> log' = l1"
    if "cfg_deviceArn c = []" and "appStep fuel w c log = (Inr a, l1)" for a l1
    using that assms by (auto simp: scheduleRun_def andThen_def poolStep_def fail_def)
  have never: "\<exists>e. r = Inl e" if "cfg_deviceArn c = []"
  proof -
    obtain r1 l1 where a: "appStep fuel w c log = (r1, l1)" by (cases "appStep fuel w c log")
    show ?thesis
    proof (cases r1)
      case (Inl e)
      with a app_fails show ?thesis by blast
    next
      case (Inr x)
      with a insufficient[OF that] show ?thesis by blast
    qed
  qed
  have at_once: "r = Inl (Error ''we need a device/devicepool to run on'') \<and> log' = log"
    if "cfg_deviceArn c = []" and "cfg_appFile c = []"
  proof -
    have "appStep fuel w c log = (Inr (cfg_appArn c), log)"
      using that(2) by (simp add: appStep_def ret_def)
    from insufficient[OF that(1) this] show ?thesis .
  qed
  have resolved: "\<exists>l l'. createPoolFromDevice w (cfg_deviceArn c) (cfg_deviceArn c) (cfg_projectArn c) l
                       = (Inr (DevicePoolArn req), l')"
    if "cfg_deviceArn c \<noteq> []" and "Call_ScheduleRun req \<in> set (emitted log log')" for req
  proof -
    from establishes_emitted[OF scheduleRun_establishes assms(2) that(2)]
    have "poolUsed w c req" by (simp add: schedOK_def)
    with assms(1) show ?thesis by (simp add: poolUsed_def poolFrom_def)
  qed
  have pool_fails: "r = Inl e \<and> log' = l2"
    if "cfg_deviceArn c \<noteq> []"
      and "appStep fuel w c log = (Inr a, l1)
            \<and> createPoolFromDevice w (cfg_deviceArn c) (cfg_deviceArn c) (cfg_projectArn c) l1
                = (Inl e, l2)" for a l1 e l2
    using that assms by (auto simp: scheduleRun_def andThen_def poolStep_def)
  show ?thesis
    using app_fails no_request insufficient never at_once resolved pool_fails by blast
qed

theorem C7_pool_or_device_witness:
  "cfg_devicePoolArn nightly = [] \<and> cfg_deviceArn nightly \<noteq> []
   \<and> scheduleRun 1 farmWorld nightly [] = (Inr (), nightlyLog)
   \<and> Call_ScheduleRun (nightlyRequest None) \<in> set (emitted [] nightlyLog)
   \<and> (\<exists>l l'. createPoolFromDevice farmWorld (cfg_deviceArn nightly) (cfg_deviceArn nightly)
                 (cfg_projectArn nightly) l
               = (Inr (DevicePoolArn (nightlyRequest None)), l'))
   \<and> scheduleRun 1 farmWorld (nightly \<lparr> cfg_deviceArn := ''Pixel 9 - 15'' \<rparr>) []
       = (Inl (Fatal ''failed to find a device with name Pixel 9 - 15''),
          uploadCalls ''app.apk'' ''ANDROID_APP'' @ [Call_ListDevices])
   \<and> scheduleRun 1 farmWorld (nightly \<lparr> cfg_deviceArn := [], cfg_appFile := [] \<rparr>) []
       = (Inl (Error ''we need a device/devicepool to run on''), [])
   \<and> scheduleRun 1 farmWorld (nightly \<lparr> cfg_deviceArn := [] \<rparr>) []
       = (Inl (Error ''we need a device/devicepool to run on''),
          uploadCalls ''app.apk'' ''ANDROID_APP'')
   \<and> scheduleRun 1 farmWorld (nightly \<lparr> cfg_deviceArn := [], cfg_appFile := ''README'' \<rparr>) []
       = (Inl (Error ''Can't guess App Type''), [])"
proof -
  have p: "cfg_devicePoolArn nightly = []" and d: "cfg_deviceArn nightly \<noteq> []"
    by (simp_all add: nightly_def)
  have m: "Call_ScheduleRun (nightlyRequest None) \<in> set (emitted [] nightlyLog)"
    by (simp add: emitted_def nightlyLog_def)
  from C7_pool_or_device[OF p farmWorld_nightly] d m
  have a: "\<exists>l l'. createPoolFromDevice farmWorld (cfg_deviceArn nightly) (cfg_deviceArn nightly)
                 (cfg_projectArn nightly) l
               = (Inr (DevicePoolArn (nightlyRequest None)), l')"
    by blast
  have b: "scheduleRun 1 farmWorld (nightly \<lparr> cfg_deviceArn := ''Pixel 9 - 15'' \<rparr>) []
       = (Inl (Fatal ''failed to find a device with name Pixel 9 - 15''),
          uploadCalls ''app.apk'' ''ANDROID_APP'' @ [Call_ListDevices])"
  proof -
    let ?c = "nightly \<lparr> cfg_deviceArn := ''Pixel 9 - 15'' \<rparr>"
    have p': "cfg_devicePoolArn ?c = []" and d': "cfg_deviceArn ?c \<noteq> []"
      by (simp_all add: nightly_def)
    have app: "appStep 1 farmWorld ?c [] = (Inr ''arn:upload:app.apk'', uploadCalls ''app.apk'' ''ANDROID_APP'')"
      using farmWorld_appStep[of ?c "[]"] by (simp add: nightly_def)
    have pool: "createPoolFromDevice farmWorld (cfg_deviceArn ?c) (cfg_deviceArn ?c) (cfg_projectArn ?c)
          (uploadCalls ''app.apk'' ''ANDROID_APP'')
        = (Inl (Fatal ''failed to find a device with name Pixel 9 - 15''),
           uploadCalls ''app.apk'' ''ANDROID_APP'' @ [Call_ListDevices])"
      by (simp add: createPoolFromDevice_def lookupDeviceArn_def failOnErr_def deviceMap_def
          deviceKey_def twoPixels_def farmWorld_def nightly_def Let_def)
    obtain r log' where run: "scheduleRun 1 farmWorld ?c [] = (r, log')"
      by (cases "scheduleRun 1 farmWorld ?c []")
    from C7_pool_or_device[OF p' run] d' app pool
    have "r = Inl (Fatal ''failed to find a device with name Pixel 9 - 15'')
        \<and> log' = uploadCalls ''app.apk'' ''ANDROID_APP'' @ [Call_ListDevices]"
      by blast
    with run show ?thesis by simp
  qed
  have c0: "scheduleRun 1 farmWorld (nightly \<lparr> cfg_deviceArn := [], cfg_appFile := [] \<rparr>) []
       = (Inl (Error ''we need a device/devicepool to run on''), [])"
  proof -
    let ?c = "nightly \<lparr> cfg_deviceArn := [], cfg_appFile := [] \<rparr>"
    have p': "cfg_devicePoolArn ?c = []" and d': "cfg_deviceArn ?c = []" and f': "cfg_appFile ?c = []"
      by (simp_all add: nightly_def)
    obtain r log' where run: "scheduleRun 1 farmWorld ?c [] = (r, log')"
      by (cases "scheduleRun 1 farmWorld ?c []")
    from C7_pool_or_device[OF p' run] d' f'
    have "r = Inl (Error ''we need a device/devicepool to run on'') \<and> log' = []" by blast
    with run show ?thesis by simp
  qed
  have c1: "scheduleRun 1 farmWorld (nightly \<lparr> cfg_deviceArn := [] \<rparr>) []
       = (Inl (Error ''we need a device/devicepool to run on''),
          uploadCalls ''app.apk'' ''ANDROID_APP'')"
  proof -
    let ?c = "nightly \<lparr> cfg_deviceArn := [] \<rparr>"
    have p': "cfg_devicePoolArn ?c = []" and d': "cfg_deviceArn ?c = []"
      by (simp_all add: nightly_def)
    have app: "appStep 1 farmWorld ?c [] = (Inr ''arn:upload:app.apk'', uploadCalls ''app.apk'' ''ANDROID_APP'')"
      using farmWorld_appStep[of ?c "[]"] by (simp add: nightly_def)
    obtain r log' where run: "scheduleRun 1 farmWorld ?c [] = (r, log')"
      by (cases "scheduleRun 1 farmWorld ?c []")
    from C7_pool_or_device[OF p' run] d' app
    have "r = Inl (Error ''we need a device/devicepool to run on'')
        \<and> log' = uploadCalls ''app.apk'' ''ANDROID_APP''" by blast
    with run show ?thesis by simp
  qed
  have c2: "scheduleRun 1 farmWorld (nightly \<lparr> cfg_deviceArn := [], cfg_appFile := ''README'' \<rparr>) []
       = (Inl (Error ''Can't guess App Type''), [])"
  proof -
    let ?c = "nightly \<lparr> cfg_deviceArn := [], cfg_appFile := ''README'' \<rparr>"
    have p': "cfg_devicePoolArn ?c = []" and d': "cfg_deviceArn ?c = []"
      by (simp_all add: nightly_def)
    have app: "appStep 1 farmWorld ?c [] = (Inl (Error ''Can't guess App Type''), [])"
      by (simp add: appStep_def andThen_def pureResult_def nightly_def guessAppType_def Ext_def
          ToLower_def isASCII_def toLowerByte_def char_of_def bit_Suc_0_iff)
    obtain r log' where run: "scheduleRun 1 farmWorld ?c [] = (r, log')"
      by (cases "scheduleRun 1 farmWorld ?c []")
    from C7_pool_or_device[OF p' run] d' app
    have "r = Inl (Error ''Can't guess App Type'') \<and> log' = []" by blast
    with run show ?thesis by simp
  qed
  from p d farmWorld_nightly m a b c0 c1 c2 show ?thesis by blast
qed

text \<open>
  C7 as stated fails for a configuration with neither a device pool nor a device whose
  app file is \<open>notes.txt\<close>: the kind of the app cannot be guessed, and \<open>scheduleRun\<close>
  returns that error, not the insufficient-input error.
\<close>

theorem C7_pool_or_device_counterexample:
  "cfg_devicePoolArn noTarget = [] \<and> cfg_deviceArn noTarget = []
   \<and> scheduleRun 1 farmWorld noTarget [] = (Inl (Error ''Can't guess App Type''), [])"
  by (simp add: noTarget_def nightly_def scheduleRun_def appStep_def andThen_def pureResult_def
      guessAppType_def Ext_def ToLower_def isASCII_def toLowerByte_def)



text \<open>
  C9. Two runs of the Report Builder for the same run, each from any log and in any
  world, that are answered with the same run data (the same artifact listing of every
  category, the same job list, the same suite list of every job, whenever they ask)
  and that both complete, make the same calls in the same order: the destination file
  paths of the two runs are identical, as lists and so as sets. The second run may
  start where the first one ended.
\<close>

theorem C9_report_idempotent:
  assumes "\<forall>l l' t. ListArtifacts w l arn t = ListArtifacts w' l' arn t"
    and "\<forall>l l'. ListJobs w l arn = ListJobs w' l' arn"
    and "\<forall>l l' j. ListSuites w l j = ListSuites w' l' j"
    and "runReport w arn log1 = (Inr (), log1')"
    and "runReport w' arn log2 = (Inr (), log2')"
  shows "emitted log1 log1' = emitted log2 log2'
   \<and> downloadPaths (emitted log1 log1') = downloadPaths (emitted log2 log2')
   \<and> set (downloadPaths (emitted log1 log1')) = set (downloadPaths (emitted log2 log2'))"
proof -
  have a: "\<forall>l t. ListArtifacts w l arn t = ListArtifacts w [] arn t"
    and a': "\<forall>l t. ListArtifacts w' l arn t = ListArtifacts w' [] arn t"
    using assms(1) by metis+
  have b: "\<forall>l. ListJobs w l arn = ListJobs w [] arn"
    and b': "\<forall>l. ListJobs w' l arn = ListJobs w' [] arn"
    using assms(2) by metis+
  have c: "\<forall>l j. ListSuites w l j = ListSuites w [] j"
    and c': "\<forall>l j. ListSuites w' l j = ListSuites w' [] j"
    using assms(3) by metis+
  have "log1' = log1 @ reportPlan w arn"
    by (rule follows_done[OF runReport_follows[OF a b c] assms(4)])
  moreover have "log2' = log2 @ reportPlan w' arn"
    by (rule follows_done[OF runReport_follows[OF a' b' c'] assms(5)])
  moreover have "reportPlan w arn = reportPlan w' arn"
    by (rule reportPlan_same[OF assms(1,2,3)])
  ultimately show ?thesis by (simp add: emitted_def)
qed

theorem C9_report_idempotent_witness:
  "runReport farmWorld ''arn:1:run:r'' [] = (Inr (), farmReport)
   \<and> runReport farmWorld ''arn:1:run:r'' farmReport = (Inr (), farmReport @ farmReport)
   \<and> emitted [] farmReport = emitted farmReport (farmReport @ farmReport)
   \<and> downloadPaths (emitted farmReport (farmReport @ farmReport))
     = [''report/Pixel 5 - Google Pixel 5 - 11/Setup/0_Logcat.txt'',
        ''report/Pixel 5 - Google Pixel 5 - 11/Tests/0_Logcat.txt'',
        ''report/Pixel 5 - Google Pixel 5 - 11/Tests/1_Logcat.txt'',
        ''report/Pixel 5 - Google Pixel 5 - 11/Tests/0_Home.png'']"
proof -
  have run1: "runReport farmWorld ''arn:1:run:r'' [] = (Inr (), farmReport)"
    using farmWorld_runReport[of "[]"] by simp
  have run2: "runReport farmWorld ''arn:1:run:r'' farmReport = (Inr (), farmReport @ farmReport)"
    by (rule farmWorld_runReport)
  have la: "\<forall>l l' t. ListArtifacts farmWorld l ''arn:1:run:r'' t = ListArtifacts farmWorld l' ''arn:1:run:r'' t"
    and lj: "\<forall>l l'. ListJobs farmWorld l ''arn:1:run:r'' = ListJobs farmWorld l' ''arn:1:run:r''"
    and ls: "\<forall>l l' j. ListSuites farmWorld l j = ListSuites farmWorld l' j"
    by (simp_all add: farmWorld_def)
  have paths: "downloadPaths (emitted [] farmReport)
     = [''report/Pixel 5 - Google Pixel 5 - 11/Setup/0_Logcat.txt'',
        ''report/Pixel 5 - Google Pixel 5 - 11/Tests/0_Logcat.txt'',
        ''report/Pixel 5 - Google Pixel 5 - 11/Tests/1_Logcat.txt'',
        ''report/Pixel 5 - Google Pixel 5 - 11/Tests/0_Home.png'']"
    by (simp add: emitted_def farmReport_def)
  from C9_report_idempotent[OF la lj ls run1 run2] run1 run2 paths
  show ?thesis by simp
qed

text \<open>
  C10. Every create-upload request that \<open>uploadPut\<close> makes carries, as the name of the
  upload, the display name it was given, and for an empty display name the base name
  of the local file path; it makes such a request whenever the file can be read. The
  base name of \<open>dir/base\<close>, and of \<open>base\<close> alone, is \<open>base\<close>, the last path element.
\<close>

theorem C10_upload_name:
  assumes "uploadPut fuel w path ty proj nm log = (r, log')"
  shows "(\<forall>req. Call_CreateUpload req \<in> set (emitted log log')
            \<longrightarrow> upName req = (if nm = [] then Base path else nm))
   \<and> ((\<exists>buffer. OpenFile w log path = Inr (Some buffer))
        \<longrightarrow> (\<exists>req. Call_CreateUpload req \<in> set (emitted log log')))
   \<and> (\<forall>dir base. base \<noteq> [] \<and> CHR ''/'' \<notin> set base
        \<longrightarrow> Base (dir @ ''/'' @ base) = base \<and> Base base = base)"
proof (intro conjI allI impI)
  fix req assume "Call_CreateUpload req \<in> set (emitted log log')"
  from establishes_emitted[OF uploadPut_establishes assms this]
  have "req = uploadRequest path ty proj nm" by (simp add: uploadEvent_def)
  then show "upName req = (if nm = [] then Base path else nm)"
    by (simp add: uploadRequest_def)
next
  assume "\<exists>buffer. OpenFile w log path = Inr (Some buffer)"
  then obtain buffer where "OpenFile w log path = Inr (Some buffer)" by blast
  from uploadPut_creates[OF this assms]
  show "\<exists>req. Call_CreateUpload req \<in> set (emitted log log')"
    by (auto simp: emitted_def)
next
  fix dir base :: string assume "base \<noteq> [] \<and> CHR ''/'' \<notin> set base"
  then show "Base (dir @ ''/'' @ base) = base" using Base_component(1)[of base dir] by blast
next
  fix dir base :: string assume "base \<noteq> [] \<and> CHR ''/'' \<notin> set base"
  then show "Base base = base" using Base_component(2)[of base] by blast
qed

theorem C10_upload_name_witness:
  "uploadPut 1 uploadWorld ''build/app.apk'' ''ANDROID_APP'' ''arn:project:1'' [] []
     = (Inr \<lparr> uploadArn = ''arn:upload:app.apk'', uploadUrl = ''https://bucket/key?signature'',
              uploadStatus = ''INITIALIZED'' \<rparr>,
        [Call_OpenFile ''build/app.apk'',
         Call_CreateUpload \<lparr> upName = ''app.apk'', upProjectArn = ''arn:project:1'',
            upType = ''ANDROID_APP'', upContentType = ''application/octet-stream'' \<rparr>,
         Call_HttpPut ''https://bucket/key?signature'' ''bytes'',
         Call_GetUpload ''arn:upload:app.apk''])
   \<and> upName \<lparr> upName = ''app.apk'', upProjectArn = ''arn:project:1'',
            upType = ''ANDROID_APP'', upContentType = ''application/octet-stream'' \<rparr>
       = Base ''build/app.apk''
   \<and> Base ''build/app.apk'' = ''app.apk''"
proof -
  let ?req = "\<lparr> upName = ''app.apk'', upProjectArn = ''arn:project:1'',
            upType = ''ANDROID_APP'', upContentType = ''application/octet-stream'' \<rparr>"
  let ?log = "[Call_OpenFile ''build/app.apk'', Call_CreateUpload ?req,
         Call_HttpPut ''https://bucket/key?signature'' ''bytes'',
         Call_GetUpload ''arn:upload:app.apk'']"
  have run: "uploadPut 1 uploadWorld ''build/app.apk'' ''ANDROID_APP'' ''arn:project:1'' [] []
     = (Inr \<lparr> uploadArn = ''arn:upload:app.apk'', uploadUrl = ''https://bucket/key?signature'',
              uploadStatus = ''INITIALIZED'' \<rparr>, ?log)"
    by (simp add: uploadPut_def uploadWorld_def deadWorld_def uploadRequest_def Base_def Let_def)
  have mem: "Call_CreateUpload ?req \<in> set (emitted [] ?log)"
    by (simp add: emitted_def)
  from C10_upload_name[OF run] mem
  have "upName ?req = (if ([]::string) = [] then Base ''build/app.apk'' else [])"
    by blast
  moreover have "''app.apk'' \<noteq> [] \<and> CHR ''/'' \<notin> set ''app.apk''"
    by simp
  with C10_upload_name[OF run] have "Base (''build'' @ ''/'' @ ''app.apk'') = ''app.apk''"
    by blast
  ultimately show ?thesis using run by simp
qed

end
